theory Spec2Isabelle
  imports Complex_Main "HOL-Library.Word"
begin

section \<open>Machine types, undefined behaviour, loops\<close>

text \<open>
  \<open>uint_t\<close> is the 32-bit unsigned integer of the code base: \<open>+\<close>, \<open>-\<close> and \<open>*\<close> wrap
  around. A \<open>float\<close> or \<open>double\<close> value is the real number it stands for; infinities
  and NaN are not values of the model. Where the code casts, floors or rounds up the
  result of its arithmetic on \<open>double\<close>s (in \<open>Convolver::Process\<close> and
  \<open>ConvolverManager::CalcPartitions\<close>), every operation is followed by the rounding of
  the machine, \<open>round_double\<close> below, and a store to a \<open>float\<close> by \<open>round_float\<close>. The
  mix of \<open>EndConvolution\<close> and the delay of \<open>UpdateConvolverParameters\<close> are sums and
  products that these functions only store: they are exact reals, so a statement about
  them is about the formula the code evaluates, not about its rounding.

  What C++ leaves undefined (a division by zero, an access outside an array, a
  conversion of a \<open>double\<close> that does not fit \<open>uint_t\<close>) and a wait on a signal that
  nobody will raise are results of their own, the left summand of \<open>fault + 'a\<close>.
\<close>

type_synonym uint_t = "32 word"

datatype fault = DivisionByZero | OutOfBounds | ConversionOutOfRange | Blocked

definition bindF :: "fault + 'a \<Rightarrow> ('a \<Rightarrow> fault + 'b) \<Rightarrow> fault + 'b" where
  "bindF r f = (case r of Inl e \<Rightarrow> Inl e | Inr x \<Rightarrow> f x)"

text \<open>A \<open>for\<close> loop that produces one value per index, stopping at the first fault.\<close>

fun traverse :: "('a \<Rightarrow> fault + 'b) \<Rightarrow> 'a list \<Rightarrow> fault + 'b list" where
  "traverse f [] = Inr []"
| "traverse f (x # xs) =
     (case f x of
        Inl e \<Rightarrow> Inl e
      | Inr y \<Rightarrow> (case traverse f xs of Inl e \<Rightarrow> Inl e | Inr ys \<Rightarrow> Inr (y # ys)))"

text \<open>A \<open>for\<close> loop that updates a state at every index, stopping at the first fault.\<close>

fun foldM :: "('a \<Rightarrow> 's \<Rightarrow> fault + 's) \<Rightarrow> 'a list \<Rightarrow> 's \<Rightarrow> fault + 's" where
  "foldM f [] s = Inr s"
| "foldM f (x # xs) s = (case f x s of Inl e \<Rightarrow> Inl e | Inr s' \<Rightarrow> foldM f xs s')"

text \<open>
  The cast \<open>(uint_t)x\<close> of a \<open>double\<close>: truncation towards zero, undefined when the
  truncated value is not a \<open>uint_t\<close>.
\<close>

definition double_to_uint :: "real \<Rightarrow> fault + uint_t" where
  "double_to_uint x =
     (if - 1 < x \<and> x < 2 ^ 32
      then Inr (word_of_int (if 0 \<le> x then \<lfloor>x\<rfloor> else \<lceil>x\<rceil>))
      else Inl ConversionOutOfRange)"

text \<open>\<open>memcpy\<close>/\<open>memset\<close> of \<open>n\<close> values \<open>f 0, ..., f (n - 1)\<close> to \<open>mem + pos\<close>.\<close>

definition write_block :: "real list \<Rightarrow> nat \<Rightarrow> nat \<Rightarrow> (nat \<Rightarrow> real) \<Rightarrow> fault + real list" where
  "write_block mem pos n f =
     (if pos + n \<le> length mem
      then Inr (take pos mem @ map f [0..<n] @ drop (pos + n) mem)
      else Inl OutOfBounds)"

section \<open>The arithmetic of the machine\<close>

text \<open>
  IEEE 754 arithmetic with rounding to nearest, ties to even: the result of an operation
  is the rounding of the exact result. \<open>fl_round p emin\<close> rounds to the format with \<open>p\<close>
  bits of significand and least exponent \<open>emin\<close>, subnormal numbers included; the
  format has no greatest exponent here, so that no operation overflows. Every operation
  is evaluated in the format of its operands and none is fused with another.
\<close>

definition round_even :: "real \<Rightarrow> int" where
  "round_even y =
     (let f = \<lfloor>y\<rfloor>; t = y - of_int f
      in if t < 1 / 2 then f else if 1 / 2 < t then f + 1 else if even f then f else f + 1)"

definition fl_round :: "nat \<Rightarrow> int \<Rightarrow> real \<Rightarrow> real" where
  "fl_round p emin x =
     (if x = 0 then 0
      else (let e = max \<lfloor>log 2 \<bar>x\<bar>\<rfloor> emin - (int p - 1)
            in of_int (round_even (x / 2 powi e)) * 2 powi e))"

definition round_double :: "real \<Rightarrow> real" where
  "round_double = fl_round 53 (- 1022)"

definition round_float :: "real \<Rightarrow> real" where
  "round_float = fl_round 24 (- 126)"

section \<open>What the repository takes from elsewhere\<close>

text \<open>
  The block convolver (\<open>BlockConvolver\<close>, with its filters and context), the
  fractional-sample reader of \<open>FractionalSample.h\<close> and the thread library are not part
  of the sources at hand. They are parameters of the model: a value of type \<open>'bc\<close> is the
  state of one \<open>BlockConvolver\<close>, a filter is handed to it by the index of its entry in
  the manager's library (the model's reading of the pointer \<open>&filters[ir]\<close>), and
  \<open>bc_filter_block\<close> returns the new state and the block it writes, sample \<open>k\<close> of the
  destination being the function's value at \<open>k\<close>. The contents of memory that the code
  allocates and does not initialise are parameters too.
\<close>

record 'bc extern =
  FractionalSampleAdditionalDelayRequired :: uint_t
  FractionalSample :: "real list \<Rightarrow> uint_t \<Rightarrow> uint_t \<Rightarrow> uint_t \<Rightarrow> real \<Rightarrow> real"
  bc_new :: "uint_t \<Rightarrow> uint_t \<Rightarrow> uint_t \<Rightarrow> 'bc"
  bc_set_filter :: "'bc \<Rightarrow> nat \<Rightarrow> 'bc"
  bc_crossfade_filter :: "'bc \<Rightarrow> nat \<Rightarrow> 'bc"
  bc_filter_block :: "'bc \<Rightarrow> real list \<Rightarrow> 'bc \<times> (nat \<Rightarrow> real)"
  pthread_create :: "uint_t \<Rightarrow> bool"
  uninit_float :: "nat \<Rightarrow> real"
  uninit_double :: real
  uninit_bool :: bool

section \<open>ConvolverManager::CalcPartitions\<close>

record FILTER_FADE =
  fade_in_start :: real
  fade_in_length :: real
  fade_out_start :: real
  fade_out_length :: real

text \<open>
  The result is the triple of the returned partition count and the two reference
  parameters \<open>start\<close> and \<open>len\<close>. \<open>MAX\<close> and \<open>MIN\<close> are the usual macros.
\<close>

definition CalcPartitions ::
  "FILTER_FADE \<Rightarrow> real \<Rightarrow> uint_t \<Rightarrow> uint_t \<Rightarrow> fault + (uint_t \<times> uint_t \<times> uint_t)" where
  "CalcPartitions fade samplerate filterlen bsize =
     bindF (double_to_uint (of_int \<lfloor>round_double (max (fade_in_start fade) 0 * samplerate)\<rfloor>))
       (\<lambda>start.
     bindF (if round_double (fade_out_start fade + fade_out_length fade) = 0
            then Inr (filterlen - start)
            else bindF (double_to_uint (of_int
                   \<lceil>round_double
                      (max (round_double (round_double (fade_out_start fade + fade_out_length fade)
                                          - fade_in_start fade)) 0
                       * samplerate)\<rceil>))
                   (\<lambda>len. Inr (min len (filterlen - start)))) (\<lambda>len.
     if bsize = 0 then Inl DivisionByZero
     else Inr ((len + bsize - 1) div bsize, start, len)))"

section \<open>Convolver: one worker and its thread\<close>

definition maxadditionaldelay :: uint_t where
  "maxadditionaldelay = 2400"

text \<open>The local variables of \<open>Convolver::Process\<close>, which live as long as the thread.\<close>

record ProcessLocals =
  maxdelay :: uint_t
  delaypos :: uint_t
  delaylen :: uint_t
  delaymem :: "real list"
  level1 :: real
  delay1 :: real

text \<open>
  \<open>thread\<close> is \<open>None\<close> for the null handle and otherwise holds the frame of the running
  thread. \<open>input_buf\<close>, \<open>output_buf\<close> and \<open>filter_ptr\<close> are the members
  \<open>input\<close>, \<open>output\<close> and \<open>filter\<close>; \<open>startsignal\<close> and \<open>donesignal\<close> are
  the flags of the two \<open>ThreadBoolSignalObject\<close>s: \<open>Signal\<close> sets the flag, \<open>Wait\<close>
  returns once it is set and clears it.
\<close>

record 'bc Convolver =
  thread :: "ProcessLocals option"
  blocksize :: uint_t
  partitions :: uint_t
  zeroblocks :: uint_t
  maxzeroblocks :: uint_t
  convindex :: uint_t
  input_buf :: "real list"
  output_buf :: "real list"
  outputdelay :: real
  outputlevel :: real
  hqproc :: bool
  quitthread :: bool
  convolver :: 'bc
  current_filter :: "nat option"
  filter_ptr :: "nat option"
  startsignal :: bool
  donesignal :: bool

text \<open>The part of \<open>Convolver::Process\<close> before its loop.\<close>

definition Process_init :: "'bc extern \<Rightarrow> uint_t \<Rightarrow> fault + ProcessLocals" where
  "Process_init env bsize =
     (if bsize = 0 then Inl DivisionByZero
      else
        (let dl = (1 + ((maxadditionaldelay + bsize - 1) div bsize)) * bsize
         in Inr \<lparr>maxdelay = dl - bsize - 1 - FractionalSampleAdditionalDelayRequired env,
                 delaypos = 0, delaylen = dl, delaymem = replicate (unat dl) 0,
                 level1 = 1, delay1 = 0\<rparr>))"

text \<open>
  The constructor. It returns the worker and what it reports with \<open>ERROR\<close>. The thread it
  creates runs \<open>Process\<close> up to its first wait.
\<close>

definition Convolver_new ::
  "'bc extern \<Rightarrow> uint_t \<Rightarrow> uint_t \<Rightarrow> uint_t \<Rightarrow> uint_t \<Rightarrow> real
     \<Rightarrow> fault + ('bc Convolver \<times> string list)" where
  "Convolver_new env cx cindex bsize parts dly =
     (if bsize = 0 then Inl DivisionByZero
      else
        bindF (if pthread_create env cindex
               then bindF (Process_init env bsize) (\<lambda>l. Inr (Some l))
               else Inr None) (\<lambda>thr.
        Inr (\<lparr>thread = thr, blocksize = bsize, partitions = parts, zeroblocks = 0,
               maxzeroblocks = parts + (maxadditionaldelay div bsize) + 1,
               convindex = cindex,
               input_buf = map (uninit_float env) [0..<unat bsize],
               output_buf = map (uninit_float env) [0..<unat bsize],
               outputdelay = dly, outputlevel = 1, hqproc = uninit_bool env,
               quitthread = False, convolver = bc_new env cx bsize parts,
               current_filter = None, filter_ptr = None,
               startsignal = False, donesignal = False\<rparr>,
             if thr = None then [''Failed to create thread''] else [])))"

definition SetParameters :: "'bc Convolver \<Rightarrow> real \<Rightarrow> real \<Rightarrow> bool \<Rightarrow> 'bc Convolver" where
  "SetParameters c lvl dly hq = c\<lparr>outputlevel := lvl, outputdelay := dly, hqproc := hq\<rparr>"

definition SetFilter :: "'bc Convolver \<Rightarrow> nat \<Rightarrow> 'bc Convolver" where
  "SetFilter c newfilter =
     (if Some newfilter \<noteq> filter_ptr c then c\<lparr>filter_ptr := Some newfilter\<rparr> else c)"

text \<open>\<open>Convolver::Convolve\<close>: the worker and the block for the destination buffer.\<close>

definition Convolver_Convolve ::
  "'bc extern \<Rightarrow> 'bc Convolver \<Rightarrow> 'bc Convolver \<times> (nat \<Rightarrow> real)" where
  "Convolver_Convolve env c =
     (let c1 = (case filter_ptr c of
                  None \<Rightarrow> c
                | Some f \<Rightarrow>
                    if filter_ptr c \<noteq> current_filter c
                    then c\<lparr>convolver :=
                             (if current_filter c = None
                              then bc_set_filter env (convolver c) f
                              else bc_crossfade_filter env (convolver c) f),
                           current_filter := filter_ptr c\<rparr>
                    else c);
          r = bc_filter_block env (convolver c1) (input_buf c1)
      in (c1\<lparr>convolver := fst r\<rparr>, snd r))"

text \<open>
  \<open>Convolver::StartConvolution\<close>. The pointer \<open>_input\<close> is the buffer \<open>buf\<close> with the
  offset \<open>off\<close>; the index \<open>i * inputchannels\<close> is computed in \<open>uint_t\<close>.
\<close>

definition StartConvolution ::
  "'bc Convolver \<Rightarrow> real list \<Rightarrow> nat \<Rightarrow> uint_t \<Rightarrow> fault + 'bc Convolver" where
  "StartConvolution c buf off inputchannels =
     bindF (traverse (\<lambda>i. let k = off + unat ((word_of_nat i :: uint_t) * inputchannels)
                          in if k < length buf then Inr (buf ! k) else Inl OutOfBounds)
              [0..<unat (blocksize c)]) (\<lambda>inp.
     let nonzero = list_ex (\<lambda>x. x \<noteq> 0) inp;
         zb = (if nonzero then 0
               else if zeroblocks c < maxzeroblocks c then zeroblocks c + 1
               else zeroblocks c)
     in Inr (c\<lparr>input_buf := inp, zeroblocks := zb,
               startsignal := (if zb < maxzeroblocks c then True else startsignal c)\<rparr>))"

text \<open>\<open>Convolver::EndConvolution\<close>: the worker and the output buffer after the mix.\<close>

definition EndConvolution ::
  "'bc Convolver \<Rightarrow> real list \<Rightarrow> nat \<Rightarrow> uint_t \<Rightarrow> real \<Rightarrow> fault + ('bc Convolver \<times> real list)" where
  "EndConvolution c buf off outputchannels lvl =
     (if zeroblocks c < maxzeroblocks c
      then
        (if donesignal c
         then bindF (foldM (\<lambda>i b. let k = off + unat ((word_of_nat i :: uint_t) * outputchannels)
                                  in if k < length b \<and> i < length (output_buf c)
                                     then Inr (b[k := b ! k + output_buf c ! i * lvl])
                                     else Inl OutOfBounds)
                       [0..<unat (blocksize c)] buf)
                (\<lambda>b. Inr (c\<lparr>donesignal := False\<rparr>, b))
         else Inl Blocked)
      else Inr (c, buf))"

text \<open>
  The body of the loop of \<open>Convolver::Process\<close>, from after the test of \<open>quitthread\<close>
  to before \<open>donesignal.Signal()\<close>, in three parts. \<open>Process_fill\<close> writes the next
  block of the delay memory, convolved input or zeros. \<open>output_sample\<close> is one turn of
  either of the two loops that compute \<open>output\<close>, and \<open>interpolate bsize x1 x2 i\<close> is
  what both loops compute twice in a turn, \<open>a * x1 + b * x2\<close> with
  \<open>b = (double)i / (double)blocksize\<close> and \<open>a = 1.0 - b\<close>. \<open>Process_block\<close> is the
  whole body.
\<close>

definition Process_fill ::
  "'bc extern \<Rightarrow> 'bc Convolver \<Rightarrow> ProcessLocals \<Rightarrow> fault + ('bc Convolver \<times> real list)" where
  "Process_fill env c l =
     (if zeroblocks c < partitions c
      then (let r = Convolver_Convolve env c
            in bindF (write_block (delaymem l) (unat (delaypos l)) (unat (blocksize c)) (snd r))
                 (\<lambda>mem. Inr (fst r, mem)))
      else bindF (write_block (delaymem l) (unat (delaypos l)) (unat (blocksize c)) (\<lambda>k. 0))
             (\<lambda>mem. Inr (c, mem)))"

definition interpolate :: "uint_t \<Rightarrow> real \<Rightarrow> real \<Rightarrow> nat \<Rightarrow> real" where
  "interpolate bsize x1 x2 i =
     (let b = round_double (real i / real (unat bsize));
          a = round_double (1 - b)
      in round_double (round_double (a * x1) + round_double (b * x2)))"

definition output_sample ::
  "'bc extern \<Rightarrow> bool \<Rightarrow> ProcessLocals \<Rightarrow> real list \<Rightarrow> uint_t \<Rightarrow> real \<Rightarrow> real \<Rightarrow> real \<Rightarrow> nat
     \<Rightarrow> fault + real" where
  "output_sample env hq l mem bsize fpos1 fpos2 level2 i =
     (let fpos = interpolate bsize fpos1 fpos2 i;
          lvl = interpolate bsize (level1 l) level2 i
      in if hq
         then Inr (round_float (round_double
                (lvl * FractionalSample env mem 0 1 (delaylen l) fpos)))
         else bindF (double_to_uint fpos) (\<lambda>u.
              if delaylen l = 0 then Inl DivisionByZero
              else if unat (u mod delaylen l) < length mem
              then Inr (round_float (round_double (lvl * mem ! unat (u mod delaylen l))))
              else Inl OutOfBounds))"

definition Process_block ::
  "'bc extern \<Rightarrow> 'bc Convolver \<Rightarrow> ProcessLocals \<Rightarrow> fault + ('bc Convolver \<times> ProcessLocals)" where
  "Process_block env c l =
     bindF (Process_fill env c l) (\<lambda>(c1, mem).
     let pos1 = delaypos l + delaylen l;
         level2 = outputlevel c1;
         delay2 = min (outputdelay c1) (real (unat (maxdelay l)));
         fpos1 = round_double (real (unat pos1) - delay1 l);
         fpos2 = round_double (real (unat (pos1 + blocksize c1)) - delay2)
     in bindF (traverse (output_sample env (hqproc c1) l mem (blocksize c1) fpos1 fpos2 level2)
                 [0..<unat (blocksize c1)]) (\<lambda>out.
        if delaylen l = 0 then Inl DivisionByZero
        else Inr (c1\<lparr>output_buf := out\<rparr>,
                  l\<lparr>delaypos := (delaypos l + blocksize c1) mod delaylen l,
                    delaymem := mem, delay1 := delay2, level1 := level2\<rparr>)))"

text \<open>
  One turn of the thread: it leaves \<open>startsignal.Wait()\<close> when the flag is set, ends
  when \<open>quitthread\<close> is set, and otherwise processes a block and raises \<open>donesignal\<close>.
  A worker with no thread, or whose flag is not set, stays as it is.
\<close>

definition Process_step :: "'bc extern \<Rightarrow> 'bc Convolver \<Rightarrow> fault + 'bc Convolver" where
  "Process_step env c =
     (case thread c of
        None \<Rightarrow> Inr c
      | Some l \<Rightarrow>
          if startsignal c
          then (if quitthread c then Inr (c\<lparr>startsignal := False, thread := None\<rparr>)
                else bindF (Process_block env (c\<lparr>startsignal := False\<rparr>) l) (\<lambda>(c1, l1).
                     Inr (c1\<lparr>thread := Some l1, donesignal := True\<rparr>)))
          else Inr c)"

section \<open>ConvolverManager\<close>

record PARAMETERS =
  irindex :: uint_t
  delay :: real
  level :: real

text \<open>
  The fields \<open>blocksize\<close>, \<open>partitions\<close>, \<open>maxdelay\<close> and \<open>hqproc\<close> of the manager carry
  the prefix \<open>m_\<close>, the worker having fields of the same names. \<open>ctx\<close> is the partition
  size the block convolver context was built for, and \<open>errors\<close> collects what the
  manager reports with \<open>ERROR\<close>. A filter is the list of samples it was built from.
\<close>

record 'bc ConvolverManager =
  m_blocksize :: uint_t
  m_partitions :: uint_t
  convolvers :: "'bc Convolver list"
  filters :: "real list list"
  irdelays :: "(real \<times> real) list"
  parameters :: "PARAMETERS list"
  delayscale :: real
  m_maxdelay :: real
  audioscale :: real
  m_hqproc :: bool
  updateparameters :: bool
  ctx :: uint_t
  errors :: "string list"

definition ConvolverManager_new :: "'bc extern \<Rightarrow> uint_t \<Rightarrow> 'bc ConvolverManager" where
  "ConvolverManager_new env partitionsize =
     \<lparr>m_blocksize = partitionsize, m_partitions = 0, convolvers = [], filters = [],
      irdelays = [], parameters = [], delayscale = 1, m_maxdelay = uninit_double env,
      audioscale = 1, m_hqproc = True, updateparameters = True, ctx = partitionsize,
      errors = []\<rparr>"

definition SetPartitionSize :: "'bc ConvolverManager \<Rightarrow> uint_t \<Rightarrow> 'bc ConvolverManager" where
  "SetPartitionSize m partitionsize =
     (if convolvers m = [] then m\<lparr>m_blocksize := partitionsize, ctx := partitionsize\<rparr>
      else m\<lparr>errors := errors m @
             [''Trying to change partition size in ConvolverManager AFTER creating convolvers'']\<rparr>)"

definition SetDelayScale :: "'bc ConvolverManager \<Rightarrow> real \<Rightarrow> 'bc ConvolverManager" where
  "SetDelayScale m scale = m\<lparr>delayscale := scale, updateparameters := True\<rparr>"

definition EnableHQProcessing :: "'bc ConvolverManager \<Rightarrow> bool \<Rightarrow> 'bc ConvolverManager" where
  "EnableHQProcessing m enable = m\<lparr>m_hqproc := enable, updateparameters := True\<rparr>"

text \<open>
  \<open>SetIRDelays\<close>: the two arrays are lists, read at the indices below \<open>num_delays\<close>.
\<close>

definition SetIRDelays ::
  "'bc ConvolverManager \<Rightarrow> real list \<Rightarrow> uint_t \<Rightarrow> real list \<Rightarrow> fault + 'bc ConvolverManager" where
  "SetIRDelays m delays_dynamic num_delays delays_static =
     (let m1 = m\<lparr>irdelays := [], m_maxdelay := 0\<rparr>
      in if num_delays \<noteq> 0
         then bindF (traverse (\<lambda>i. if i < length delays_dynamic \<and> i < length delays_static
                                   then Inr (delays_dynamic ! i, delays_static ! i)
                                   else Inl OutOfBounds) [0..<unat num_delays]) (\<lambda>ps.
              Inr (m1\<lparr>irdelays := ps,
                      m_maxdelay := foldl (\<lambda>a p. max a (fst p + snd p)) 0 ps\<rparr>))
         else Inr m1)"

text \<open>
  \<open>LoadIRDelays\<close>: the file is what the calls of \<open>fopen\<close> and \<open>fscanf\<close> deliver. Each
  \<open>scan\<close> is one call of \<open>fscanf\<close> that converted two values or only the first; the list
  ends where \<open>fscanf\<close> converts nothing.
\<close>

datatype scan = Both real real | OnlyFirst real

datatype delayfile = NullFilename | CannotOpen | Opened "scan list"

fun scan_pairs :: "real \<Rightarrow> real \<Rightarrow> scan list \<Rightarrow> (real \<times> real) list" where
  "scan_pairs d s [] = []"
| "scan_pairs d s (Both a b # r) = (a, b) # scan_pairs a b r"
| "scan_pairs d s (OnlyFirst a # r) = (a, s) # scan_pairs a s r"

definition LoadIRDelays :: "'bc ConvolverManager \<Rightarrow> delayfile \<Rightarrow> 'bc ConvolverManager" where
  "LoadIRDelays m file =
     (let m1 = m\<lparr>irdelays := [], m_maxdelay := 0\<rparr>
      in case file of
           NullFilename \<Rightarrow> m1
         | CannotOpen \<Rightarrow> m1
         | Opened scans \<Rightarrow> m1\<lparr>irdelays := scan_pairs 0 0 scans, updateparameters := True\<rparr>)"

definition UpdateConvolverParameters ::
  "'bc ConvolverManager \<Rightarrow> uint_t \<Rightarrow> fault + 'bc ConvolverManager" where
  "UpdateConvolverParameters m cv =
     (if unat cv < length (convolvers m)
      then
        (if unat cv < length (parameters m)
         then
           (let params = parameters m ! unat cv;
                conv = convolvers m ! unat cv;
                ir = irindex params
            in if unat ir < length (filters m)
               then
                 (let dly = (if unat ir < length (irdelays m)
                             then snd (irdelays m ! unat ir)
                                  + fst (irdelays m ! unat ir) * delayscale m
                             else 0);
                      conv1 = SetFilter conv (unat ir);
                      conv2 = SetParameters conv1 (level params) (dly + delay params) (m_hqproc m)
                  in Inr (m\<lparr>convolvers := (convolvers m)[unat cv := conv2]\<rparr>))
               else Inr m)
         else Inl OutOfBounds)
      else Inr m)"

text \<open>\<open>SelectIR\<close>: the returned flag and the manager.\<close>

definition SelectIR ::
  "'bc ConvolverManager \<Rightarrow> uint_t \<Rightarrow> uint_t \<Rightarrow> real \<Rightarrow> real
     \<Rightarrow> fault + (bool \<times> 'bc ConvolverManager)" where
  "SelectIR m cv ir lvl dly =
     (if unat cv < length (convolvers m)
      then
        (if unat ir < length (filters m)
         then
           (if unat cv < length (parameters m)
            then bindF (UpdateConvolverParameters
                          (m\<lparr>parameters := (parameters m)
                               [unat cv := \<lparr>irindex = ir, delay = dly, level = lvl\<rparr>]\<rparr>) cv)
                   (\<lambda>m1. Inr (True, m1))
            else Inl OutOfBounds)
         else Inr (False, m\<lparr>errors := errors m @ [''Out-of-bounds IR requested'']\<rparr>))
      else Inr (False, m\<lparr>errors := errors m @ [''Out-of-bounds convolver requested'']\<rparr>))"

text \<open>
  \<open>SetConvolverCount\<close>. \<open>resize\<close> fills with value-initialised \<open>PARAMETERS\<close>; the first
  loop runs once per worker still to create, the second deletes from the back.
\<close>

fun create_convolvers ::
  "'bc extern \<Rightarrow> nat \<Rightarrow> 'bc ConvolverManager \<Rightarrow> fault + 'bc ConvolverManager" where
  "create_convolvers env 0 m = Inr m"
| "create_convolvers env (Suc k) m =
     bindF (Convolver_new env (ctx m) (word_of_nat (length (convolvers m)))
              (m_blocksize m) (m_partitions m) 0) (\<lambda>(c, errs).
     bindF (SelectIR (m\<lparr>convolvers := convolvers m @ [c], errors := errors m @ errs\<rparr>)
              (word_of_nat (length (convolvers m))) 0 1 0) (\<lambda>(ok, m1).
     create_convolvers env k m1))"

definition SetConvolverCount ::
  "'bc extern \<Rightarrow> 'bc ConvolverManager \<Rightarrow> uint_t \<Rightarrow> fault + 'bc ConvolverManager" where
  "SetConvolverCount env m nconvolvers =
     (let n = unat nconvolvers;
          m1 = m\<lparr>parameters := take n (parameters m)
                   @ replicate (n - length (parameters m)) \<lparr>irindex = 0, delay = 0, level = 0\<rparr>\<rparr>
      in bindF (create_convolvers env (n - length (convolvers m1)) m1) (\<lambda>m2.
         Inr (m2\<lparr>convolvers := take n (convolvers m2)\<rparr>)))"

text \<open>
  \<open>ConvolverManager::Convolve\<close>, one tick. The input and output arrays are lists. The
  first loop updates and starts every worker; then every worker's thread takes its turn
  (the threads share no state, so their order does not matter, and \<open>EndConvolution\<close>
  waits for each); the last loop joins the workers in order and mixes their output.
\<close>

definition Convolve_start ::
  "uint_t \<Rightarrow> uint_t \<Rightarrow> real list \<Rightarrow> nat \<Rightarrow> 'bc ConvolverManager \<Rightarrow> fault + 'bc ConvolverManager" where
  "Convolve_start inputchannels outputchannels inbuf i m =
     bindF (if updateparameters m then UpdateConvolverParameters m (word_of_nat i) else Inr m)
       (\<lambda>m1.
     if outputchannels = 0 then Inl DivisionByZero
     else bindF (StartConvolution (convolvers m1 ! i) inbuf
                   (unat ((word_of_nat i :: uint_t) div outputchannels)) inputchannels) (\<lambda>c.
          Inr (m1\<lparr>convolvers := (convolvers m1)[i := c]\<rparr>)))"

definition Convolve_end ::
  "uint_t \<Rightarrow> nat \<Rightarrow> 'bc ConvolverManager \<times> real list
     \<Rightarrow> fault + ('bc ConvolverManager \<times> real list)" where
  "Convolve_end outputchannels i s =
     (if outputchannels = 0 then Inl DivisionByZero
      else bindF (EndConvolution (convolvers (fst s) ! i) (snd s)
                    (unat ((word_of_nat i :: uint_t) mod outputchannels)) outputchannels
                    (audioscale (fst s))) (\<lambda>(c, b).
           Inr ((fst s)\<lparr>convolvers := (convolvers (fst s))[i := c]\<rparr>, b)))"

definition Convolve ::
  "'bc extern \<Rightarrow> 'bc ConvolverManager \<Rightarrow> real list \<Rightarrow> real list \<Rightarrow> uint_t \<Rightarrow> uint_t
     \<Rightarrow> fault + ('bc ConvolverManager \<times> real list)" where
  "Convolve env m inbuf outbuf inputchannels outputchannels =
     bindF (foldM (Convolve_start inputchannels outputchannels inbuf)
              [0..<length (convolvers m)] m) (\<lambda>m1.
     bindF (traverse (Process_step env) (convolvers m1)) (\<lambda>cs.
     foldM (Convolve_end outputchannels) [0..<length (convolvers m)]
       (m1\<lparr>convolvers := cs, updateparameters := False\<rparr>, outbuf)))"

section \<open>The states a worker can reach\<close>

text \<open>
  A worker is made by the constructor and then changed only by the operations that the
  manager and the worker's own thread apply to it.
\<close>

inductive worker_state :: "'bc extern \<Rightarrow> 'bc Convolver \<Rightarrow> bool" for env :: "'bc extern" where
  ws_new: "Convolver_new env cx i bsize parts d = Inr (c, errs) \<Longrightarrow> worker_state env c"
| ws_start: "worker_state env c \<Longrightarrow> StartConvolution c buf off ic = Inr c' \<Longrightarrow> worker_state env c'"
| ws_end: "worker_state env c \<Longrightarrow> EndConvolution c buf off oc lvl = Inr (c', b) \<Longrightarrow> worker_state env c'"
| ws_step: "worker_state env c \<Longrightarrow> Process_step env c = Inr c' \<Longrightarrow> worker_state env c'"
| ws_params: "worker_state env c \<Longrightarrow> worker_state env (SetParameters c lvl d hq)"
| ws_filter: "worker_state env c \<Longrightarrow> worker_state env (SetFilter c f)"

section \<open>Example environment and states\<close>

text \<open>
  An environment for the examples: the block convolver copies its input (the filter is
  the unit impulse), the fractional-sample reader needs five samples of extra delay,
  every thread starts, and fresh memory holds zeros.
\<close>

definition example_extern :: "unit extern" where
  "example_extern =
     \<lparr>FractionalSampleAdditionalDelayRequired = 5,
      FractionalSample = (\<lambda>mem ch n len pos. 0),
      bc_new = (\<lambda>cx b p. ()),
      bc_set_filter = (\<lambda>s f. ()),
      bc_crossfade_filter = (\<lambda>s f. ()),
      bc_filter_block = (\<lambda>s inp. ((), \<lambda>k. if k < length inp then inp ! k else 0)),
      pthread_create = (\<lambda>i. True),
      uninit_float = (\<lambda>k. 0),
      uninit_double = 0,
      uninit_bool = False\<rparr>"

text \<open>The worker that \<open>Convolver_new example_extern 2 0 2 1 0\<close> makes: block size 2, one partition.\<close>

definition example_locals :: ProcessLocals where
  "example_locals =
     \<lparr>maxdelay = 2394, delaypos = 0, delaylen = 2402, delaymem = replicate 2402 0,
      level1 = 1, delay1 = 0\<rparr>"

definition example_worker :: "unit Convolver" where
  "example_worker =
     \<lparr>thread = Some example_locals, blocksize = 2, partitions = 1, zeroblocks = 0,
      maxzeroblocks = 1202, convindex = 0, input_buf = [0, 0], output_buf = [0, 0],
      outputdelay = 0, outputlevel = 1, hqproc = False, quitthread = False,
      convolver = (), current_filter = None, filter_ptr = None,
      startsignal = False, donesignal = False\<rparr>"

text \<open>
  The manager after \<open>ConvolverManager_new example_extern 2\<close>, \<open>SetIRDelays\<close> with the
  pair \<open>(1, 2)\<close> and \<open>SetConvolverCount\<close> for one worker: no filter is loaded, so
  the worker has no partition and \<open>SelectIR\<close> has reported the missing filter.
\<close>

definition example_worker0 :: "unit Convolver" where
  "example_worker0 = example_worker\<lparr>partitions := 0, maxzeroblocks := 1201\<rparr>"

definition example_manager_no_filters :: "unit ConvolverManager" where
  "example_manager_no_filters =
     \<lparr>m_blocksize = 2, m_partitions = 0, convolvers = [example_worker0], filters = [],
      irdelays = [(1, 2)], parameters = [\<lparr>irindex = 0, delay = 0, level = 0\<rparr>],
      delayscale = 1, m_maxdelay = 3, audioscale = 1, m_hqproc = True,
      updateparameters = True, ctx = 2, errors = [''Out-of-bounds IR requested'']\<rparr>"

text \<open>
  A manager with one filter of one partition and one worker that has selected it, after
  a tick, with the pair of delays \<open>(1, 2)\<close> for the filter.
\<close>

definition example_manager :: "unit ConvolverManager" where
  "example_manager =
     \<lparr>m_blocksize = 2, m_partitions = 1,
      convolvers = [example_worker\<lparr>filter_ptr := Some 0\<rparr>], filters = [[1]],
      irdelays = [(1, 2)], parameters = [\<lparr>irindex = 0, delay = 0, level = 1\<rparr>],
      delayscale = 1, m_maxdelay = 3, audioscale = 1, m_hqproc = False,
      updateparameters = False, ctx = 2, errors = []\<rparr>"

text \<open>
  The same manager with a parameter table that is longer than the list of workers, as
  it is while \<open>SetConvolverCount\<close> creates workers: it resizes the table first.
\<close>

definition example_manager_growing :: "unit ConvolverManager" where
  "example_manager_growing =
     example_manager\<lparr>parameters := [\<lparr>irindex = 0, delay = 0, level = 1\<rparr>,
                                     \<lparr>irindex = 0, delay = 0, level = 0\<rparr>]\<rparr>"

text \<open>
  Two fades: one that starts half a second into the response and ends half a second
  later, and one that starts a second into it.
\<close>

definition fade_half :: FILTER_FADE where
  "fade_half = \<lparr>fade_in_start = 1 / 2, fade_in_length = 0,
                 fade_out_start = 1 / 2, fade_out_length = 1 / 2\<rparr>"

definition fade_late :: FILTER_FADE where
  "fade_late = \<lparr>fade_in_start = 1, fade_in_length = 0,
                 fade_out_start = 0, fade_out_length = 0\<rparr>"

text \<open>
  A fade out of a tenth of a second from the start of the response: the length is the
  \<open>double\<close> nearest to 0.1.
\<close>

definition fade_tenth :: FILTER_FADE where
  "fade_tenth = \<lparr>fade_in_start = 0, fade_in_length = 0, fade_out_start = 0,
                  fade_out_length = 3602879701896397 / 36028797018963968\<rparr>"

section \<open>The frame of a worker's thread\<close>

text \<open>
  What holds of the local variables of \<open>Convolver::Process\<close> whenever the thread waits
  for the start signal: the delay memory has \<open>delaylen\<close> samples, a whole number of
  blocks, the write position is the start of one of them, \<open>maxdelay\<close> is
  \<open>delaylen - blocksize - 1 - FractionalSampleAdditionalDelayRequired()\<close> with no
  wrap-around, and the delay of the previous block was clamped to it.
\<close>

definition frame_ok :: "'bc extern \<Rightarrow> uint_t \<Rightarrow> ProcessLocals \<Rightarrow> bool" where
  "frame_ok env bsize l \<longleftrightarrow>
     0 < unat bsize
     \<and> length (delaymem l) = unat (delaylen l)
     \<and> unat bsize dvd unat (delaylen l)
     \<and> unat bsize dvd unat (delaypos l)
     \<and> unat (delaypos l) < unat (delaylen l)
     \<and> 2 * unat (delaylen l) < 2 ^ 32
     \<and> unat (maxdelay l) + unat (FractionalSampleAdditionalDelayRequired env) + unat bsize + 1
         = unat (delaylen l)
     \<and> delay1 l \<le> real (unat (maxdelay l))"

text \<open>The worker of the examples with a block to process, a new delay and a new level.\<close>

definition example_worker_busy :: "unit Convolver" where
  "example_worker_busy =
     example_worker\<lparr>input_buf := [3, 4], outputdelay := 1, outputlevel := 1 / 2,
                    startsignal := True\<rparr>"

text \<open>The same worker with a new delay of \<open>- 2 ^ 33\<close> samples.\<close>

definition example_worker_far :: "unit Convolver" where
  "example_worker_far = example_worker_busy\<lparr>outputdelay := - 8589934592\<rparr>"

section \<open>The mix of one worker's block, in the words of the specification\<close>

text \<open>
  \<open>accumulate_spec out ch stride scale blk n\<close> is the buffer \<open>out\<close> after
  \<open>out[i * stride + ch] += blk[i] * scale\<close> for every \<open>i\<close> below \<open>n\<close>, for a channel
  \<open>ch\<close> below \<open>stride\<close>. \<open>mix_step\<close> is the mix of worker \<open>i\<close> of a list of workers:
  nothing for a worker that the silence gate holds back.
\<close>

definition accumulate_spec ::
  "real list \<Rightarrow> nat \<Rightarrow> nat \<Rightarrow> real \<Rightarrow> real list \<Rightarrow> nat \<Rightarrow> real list" where
  "accumulate_spec out ch stride scale blk n =
     map (\<lambda>k. if k mod stride = ch \<and> k div stride < n
               then out ! k + blk ! (k div stride) * scale
               else out ! k) [0..<length out]"

definition mix_step :: "'bc Convolver list \<Rightarrow> nat \<Rightarrow> real \<Rightarrow> real list \<Rightarrow> nat \<Rightarrow> real list" where
  "mix_step cs stride scale out i =
     (if zeroblocks (cs ! i) < maxzeroblocks (cs ! i)
      then accumulate_spec out (i mod stride) stride scale (output_buf (cs ! i))
             (unat (blocksize (cs ! i)))
      else out)"

text \<open>What the routing of a tick reads of a worker.\<close>

definition worker_view :: "'bc Convolver \<Rightarrow> real list \<times> real list \<times> uint_t \<times> uint_t \<times> uint_t" where
  "worker_view c = (input_buf c, output_buf c, zeroblocks c, maxzeroblocks c, blocksize c)"

section \<open>Managers for the examples of a tick\<close>

text \<open>A manager with one worker that has a new delay and a new level.\<close>

definition example_manager_busy :: "unit ConvolverManager" where
  "example_manager_busy =
     \<lparr>m_blocksize = 2, m_partitions = 1,
      convolvers = [SetParameters example_worker (1 / 2) 1 False],
      filters = [], irdelays = [], parameters = [\<lparr>irindex = 0, delay = 1, level = 1 / 2\<rparr>],
      delayscale = 1, m_maxdelay = 0, audioscale = 2, m_hqproc = False,
      updateparameters = False, ctx = 2, errors = []\<rparr>"

text \<open>
  A manager with block size 4096, a library of one filter of one partition, and one
  worker as \<open>Convolver_new example_extern 4096 0 4096 1 0\<close> makes it and
  \<open>SelectIR\<close> with level 1 and delay 1 leaves it; and two blocks of input, an impulse
  in the last sample and silence.
\<close>

definition big_worker :: "unit Convolver" where
  "big_worker =
     \<lparr>thread = Some \<lparr>maxdelay = 4090, delaypos = 0, delaylen = 8192,
                      delaymem = replicate 8192 0, level1 = 1, delay1 = 0\<rparr>,
      blocksize = 4096, partitions = 1, zeroblocks = 0, maxzeroblocks = 2, convindex = 0,
      input_buf = replicate 4096 0, output_buf = replicate 4096 0,
      outputdelay = 1, outputlevel = 1, hqproc = False, quitthread = False,
      convolver = (), current_filter = None, filter_ptr = Some 0,
      startsignal = False, donesignal = False\<rparr>"

definition big_manager :: "unit ConvolverManager" where
  "big_manager =
     \<lparr>m_blocksize = 4096, m_partitions = 1, convolvers = [big_worker], filters = [[1]],
      irdelays = [], parameters = [\<lparr>irindex = 0, delay = 1, level = 1\<rparr>],
      delayscale = 1, m_maxdelay = 0, audioscale = 1, m_hqproc = False,
      updateparameters = True, ctx = 4096, errors = []\<rparr>"

definition impulse_block :: "real list" where
  "impulse_block = (replicate 4096 0)[4095 := 1]"

definition silent_block :: "real list" where
  "silent_block = replicate 4096 0"

section \<open>The workers of a tick\<close>

text \<open>
  \<open>tick_worker ic oc inbuf m i\<close> is worker \<open>i\<close> as the first loop of \<open>Convolve\<close>
  leaves it: with the parameters of the table if they are to be updated, and with its
  block of input. \<open>worker_runs\<close> holds of a worker whose thread can process a block: the
  thread runs and waits for the start signal with its local variables in order, nobody
  has asked the worker to quit, and, when the samples are read at whole positions, every
  read position of the block converts to \<open>uint_t\<close>.
\<close>

definition tick_worker ::
  "uint_t \<Rightarrow> uint_t \<Rightarrow> real list \<Rightarrow> 'bc ConvolverManager \<Rightarrow> nat \<Rightarrow> 'bc Convolver" where
  "tick_worker ic oc inbuf m i =
     (case Convolve_start ic oc inbuf i m of
        Inl e \<Rightarrow> convolvers m ! i
      | Inr m1 \<Rightarrow> convolvers m1 ! i)"

definition worker_runs :: "'bc extern \<Rightarrow> 'bc Convolver \<Rightarrow> bool" where
  "worker_runs env c \<longleftrightarrow>
     (case thread c of
        None \<Rightarrow> False
      | Some l \<Rightarrow> frame_ok env (blocksize c) l
          \<and> (hqproc c \<or>
             list_all (\<lambda>n. - 1 < interpolate (blocksize c)
                    (round_double (real (unat (delaypos l)) + real (unat (delaylen l)) - delay1 l))
                    (round_double (real (unat (delaypos l)) + real (unat (blocksize c))
                       + real (unat (delaylen l))
                       - min (outputdelay c) (real (unat (maxdelay l))))) n
                \<and> interpolate (blocksize c)
                    (round_double (real (unat (delaypos l)) + real (unat (delaylen l)) - delay1 l))
                    (round_double (real (unat (delaypos l)) + real (unat (blocksize c))
                       + real (unat (delaylen l))
                       - min (outputdelay c) (real (unat (maxdelay l))))) n < 2 ^ 32)
               [0..<unat (blocksize c)]))
     \<and> \<not> quitthread c"

section \<open>A worker with a block of nine samples\<close>

text \<open>
  The worker that \<open>Convolver_new example_extern 9 0 9 1 0\<close> makes and \<open>SelectIR\<close> with
  level 1 and delay 1 leaves, and two blocks of input.
\<close>

definition nine_worker :: "unit Convolver" where
  "nine_worker =
     \<lparr>thread = Some \<lparr>maxdelay = 2397, delaypos = 0, delaylen = 2412,
                      delaymem = replicate 2412 0, level1 = 1, delay1 = 0\<rparr>,
      blocksize = 9, partitions = 1, zeroblocks = 0, maxzeroblocks = 268, convindex = 0,
      input_buf = replicate 9 0, output_buf = replicate 9 0,
      outputdelay = 1, outputlevel = 1, hqproc = False, quitthread = False,
      convolver = (), current_filter = None, filter_ptr = Some 0,
      startsignal = False, donesignal = False\<rparr>"

definition nine_block1 :: "real list" where
  "nine_block1 = [1, 2, 3, 4, 5, 6, 7, 8, 9]"

definition nine_block2 :: "real list" where
  "nine_block2 = [10, 11, 12, 13, 14, 15, 16, 17, 18]"

section \<open>Basic facts\<close>

lemma bindF_Inr [simp]: "bindF (Inr x) f = f x"
  by (simp add: bindF_def)

lemma bindF_Inl [simp]: "bindF (Inl e) f = Inl e"
  by (simp add: bindF_def)

lemma bindF_eq_Inr: "bindF r f = Inr y \<longleftrightarrow> (\<exists>x. r = Inr x \<and> f x = Inr y)"
  by (cases r) simp_all

lemma traverse_Inr:
  "(\<And>x. x \<in> set xs \<Longrightarrow> f x = Inr (g x)) \<Longrightarrow> traverse f xs = Inr (map g xs)"
  by (induction xs) auto

lemma traverse_InrD:
  "traverse f xs = Inr ys \<Longrightarrow> length ys = length xs \<and> (\<forall>i<length xs. f (xs ! i) = Inr (ys ! i))"
proof (induction xs arbitrary: ys)
  case Nil
  then show ?case by simp
next
  case (Cons x xs)
  then show ?case
    by (auto split: sum.splits simp: nth_Cons split: nat.splits)
qed

lemma foldM_Inr_inv:
  assumes "foldM f xs s = Inr s'" and "P s"
    and "\<And>x t t'. P t \<Longrightarrow> f x t = Inr t' \<Longrightarrow> P t'"
  shows "P s'"
  using assms(1,2)
proof (induction xs arbitrary: s)
  case Nil
  then show ?case by simp
next
  case (Cons x xs)
  then show ?case by (auto split: sum.splits intro: assms(3))
qed

lemma div_floor: "int (a div b) = \<lfloor>real a / real b\<rfloor>"
  by (simp add: floor_divide_of_nat_eq)

lemma ceil_div_nat:
  assumes "0 < (b::nat)"
  shows "\<lceil>real a / real b\<rceil> = int ((a + b - 1) div b)"
proof -
  define q where "q = (a + b - 1) div b"
  have e: "q * b + (a + b - 1) mod b = a + b - 1"
    unfolding q_def by simp
  have r: "(a + b - 1) mod b < b" using assms by simp
  have 1: "a \<le> q * b" using e r assms by linarith
  have 2: "q * b < a + b" using e assms by linarith
  have "real a \<le> real (q * b)" using 1 by (simp only: of_nat_le_iff)
  then have u: "real a / real b \<le> real q"
    using assms by (simp add: pos_divide_le_eq)
  have "real (q * b) < real (a + b)" using 2 by (simp only: of_nat_less_iff)
  then have "(real q - 1) * real b < real a" by (simp add: algebra_simps)
  then have l: "real q - 1 < real a / real b"
    using assms by (simp add: pos_less_divide_eq)
  have "\<lceil>real a / real b\<rceil> = int q"
    by (rule ceiling_unique) (use l u in simp_all)
  then show ?thesis by (simp add: q_def)
qed

lemma upt_0_2: "[0..<2] = [0, Suc 0]"
  by code_simp

section \<open>Rounding\<close>

lemma round_even_near:
  assumes "\<bar>y - of_int m\<bar> < 1 / 2"
  shows "round_even y = m"
proof -
  from assms have b: "y - of_int m < 1 / 2" "of_int m - y < 1 / 2"
    by linarith+
  show ?thesis
  proof (cases "of_int m \<le> y")
    case True
    have "\<lfloor>y\<rfloor> = m"
    proof (rule floor_unique)
      show "of_int m \<le> y" by (rule True)
      show "y < of_int m + 1" using b by linarith
    qed
    then show ?thesis using b True by (simp add: round_even_def Let_def)
  next
    case False
    have m1: "real_of_int (m - 1) = of_int m - 1" by simp
    have f: "\<lfloor>y\<rfloor> = m - 1"
    proof (rule floor_unique)
      show "of_int (m - 1) \<le> y" unfolding m1 using b by linarith
      show "y < of_int (m - 1) + 1" unfolding m1 using False by linarith
    qed
    have "1 / 2 < y - of_int (m - 1)" unfolding m1 using b by linarith
    then show ?thesis unfolding round_even_def Let_def f by simp
  qed
qed

lemma round_even_of_int [simp]: "round_even (of_int m) = m"
  by (rule round_even_near) simp

lemma round_even_cases: "round_even y = \<lfloor>y\<rfloor> \<or> round_even y = \<lfloor>y\<rfloor> + 1"
  by (simp add: round_even_def Let_def)

lemma round_even_mono:
  assumes "x \<le> y"
  shows "round_even x \<le> round_even y"
proof (cases "\<lfloor>x\<rfloor> = \<lfloor>y\<rfloor>")
  case True
  have "x - of_int \<lfloor>x\<rfloor> \<le> y - of_int \<lfloor>y\<rfloor>" using assms True by simp
  then show ?thesis using True by (auto simp: round_even_def Let_def)
next
  case False
  have "\<lfloor>x\<rfloor> \<le> \<lfloor>y\<rfloor>" using assms by (rule floor_mono)
  with False have "\<lfloor>x\<rfloor> + 1 \<le> \<lfloor>y\<rfloor>" by simp
  moreover have "round_even x \<le> \<lfloor>x\<rfloor> + 1" using round_even_cases [of x] by auto
  moreover have "\<lfloor>y\<rfloor> \<le> round_even y" using round_even_cases [of y] by auto
  ultimately show ?thesis by linarith
qed

lemma floor_log2_iff:
  assumes "0 < x"
  shows "\<lfloor>log 2 x\<rfloor> = k \<longleftrightarrow> 2 powi k \<le> x \<and> x < 2 powi (k + 1)"
proof -
  have "(2 :: real) powr real_of_int k = 2 powi k"
    "(2 :: real) powr real_of_int (k + 1) = 2 powi (k + 1)"
    by (rule powr_real_of_int'; simp)+
  then show ?thesis
    using floor_log_eq_powr_iff [of x 2 k] assms by simp
qed

lemma floor_log2_bounds:
  assumes "0 < x"
  shows "2 powi \<lfloor>log 2 x\<rfloor> \<le> x" and "x < 2 powi (\<lfloor>log 2 x\<rfloor> + 1)"
  using floor_log2_iff [OF assms, of "\<lfloor>log 2 x\<rfloor>"] by simp_all

lemma fl_round_0 [simp]: "fl_round p emin 0 = 0"
  by (simp add: fl_round_def)

text \<open>The value at a number whose binade is given.\<close>

lemma fl_round_eq:
  assumes "2 powi (e + (int p - 1)) \<le> \<bar>x\<bar>" and "\<bar>x\<bar> < 2 powi (e + int p)"
    and "emin \<le> e + (int p - 1)"
    and "round_even (x / 2 powi e) = m"
  shows "fl_round p emin x = of_int m * 2 powi e"
proof -
  have "0 < (2 :: real) powi (e + (int p - 1))" by simp
  then have x: "0 < \<bar>x\<bar>" using assms(1) by linarith
  have "e + int p = e + (int p - 1) + 1" by simp
  then have "\<lfloor>log 2 \<bar>x\<bar>\<rfloor> = e + (int p - 1)"
    using assms(1,2) by (simp add: floor_log2_iff [OF x])
  then have "max \<lfloor>log 2 \<bar>x\<bar>\<rfloor> emin - (int p - 1) = e" using assms(3) by simp
  then show ?thesis using x assms(4) by (simp add: fl_round_def Let_def)
qed

text \<open>A number with a significand of at most \<open>p\<close> bits is its own rounding.\<close>

lemma fl_round_representable:
  assumes "\<bar>m\<bar> < 2 ^ p" and "emin - (int p - 1) \<le> j"
  shows "fl_round p emin (of_int m * 2 powi j) = of_int m * 2 powi j"
proof (cases "m = 0")
  case True
  then show ?thesis by simp
next
  case False
  define x :: real where "x = of_int m * 2 powi j"
  have x0: "x \<noteq> 0" using False by (simp add: x_def)
  then have xp: "0 < \<bar>x\<bar>" by simp
  define k where "k = \<lfloor>log 2 \<bar>x\<bar>\<rfloor>"
  define e where "e = max k emin - (int p - 1)"
  have "\<bar>x\<bar> = of_int \<bar>m\<bar> * 2 powi j" by (simp add: x_def abs_mult)
  also have "\<dots> < 2 ^ p * 2 powi j"
  proof -
    have "real_of_int \<bar>m\<bar> < real_of_int (2 ^ p)" using assms(1) by (simp only: of_int_less_iff)
    then show ?thesis by simp
  qed
  also have "\<dots> = 2 powi (int p + j)" by (simp add: power_int_add)
  finally have up: "\<bar>x\<bar> < 2 powi (int p + j)" .
  have "2 powi k \<le> \<bar>x\<bar>" unfolding k_def by (rule floor_log2_bounds [OF xp])
  with up have "(2 :: real) powi k < 2 powi (int p + j)" by linarith
  have "k < int p + j"
  proof (rule ccontr)
    assume "\<not> k < int p + j"
    then have "int p + j \<le> k" by simp
    then have "(2 :: real) powi (int p + j) \<le> 2 powi k" by (rule power_int_increasing) simp
    with \<open>(2 :: real) powi k < 2 powi (int p + j)\<close> show False by linarith
  qed
  then have ej: "e \<le> j" using assms(2) by (simp add: e_def)
  define d where "d = nat (j - e)"
  have "j = e + int d" using ej by (simp add: d_def)
  then have "(2 :: real) powi j = 2 powi e * 2 ^ d" by (simp add: power_int_add)
  then have "x / 2 powi e = of_int (m * 2 ^ d)" by (simp add: x_def)
  then have "round_even (x / 2 powi e) = m * 2 ^ d" by (simp only: round_even_of_int)
  then have "fl_round p emin x = of_int (m * 2 ^ d) * 2 powi e"
    using x0 by (simp add: fl_round_def Let_def k_def e_def)
  also have "\<dots> = x" using \<open>(2 :: real) powi j = 2 powi e * 2 ^ d\<close> by (simp add: x_def)
  finally show ?thesis by (simp add: x_def)
qed


lemma fl_round_pos:
  assumes "0 < x"
  shows "fl_round p emin x
     = of_int (round_even (x / 2 powi (max \<lfloor>log 2 x\<rfloor> emin - (int p - 1))))
       * 2 powi (max \<lfloor>log 2 x\<rfloor> emin - (int p - 1))"
  using assms by (simp add: fl_round_def Let_def)

lemma fl_round_nonneg:
  assumes "0 \<le> x"
  shows "0 \<le> fl_round p emin x"
proof (cases "x = 0")
  case True
  then show ?thesis by simp
next
  case False
  with assms have x: "0 < x" by simp
  define e where "e = max \<lfloor>log 2 x\<rfloor> emin - (int p - 1)"
  have "0 \<le> x / 2 powi e" using x by simp
  from round_even_mono [OF this] have "0 \<le> round_even (x / 2 powi e)"
    using round_even_of_int [of 0] by simp
  then show ?thesis unfolding fl_round_pos [OF x] e_def [symmetric] by simp
qed

lemma fl_round_upper:
  assumes "0 < x" and "0 < p"
  shows "fl_round p emin x \<le> 2 powi (max \<lfloor>log 2 x\<rfloor> emin + 1)"
proof -
  define K where "K = max \<lfloor>log 2 x\<rfloor> emin"
  define e where "e = K - (int p - 1)"
  have "x < 2 powi (\<lfloor>log 2 x\<rfloor> + 1)" by (rule floor_log2_bounds [OF assms(1)])
  also have "\<dots> \<le> 2 powi (K + 1)" by (rule power_int_increasing) (simp_all add: K_def)
  finally have "x < 2 powi (K + 1)" .
  moreover have "(2 :: real) powi (K + 1) = 2 ^ p * 2 powi e"
  proof -
    have "K + 1 = int p + e" by (simp add: e_def)
    then show ?thesis by (simp add: power_int_add)
  qed
  ultimately have "x / 2 powi e \<le> 2 ^ p" by (simp add: field_simps)
  then have "x / 2 powi e \<le> of_int (2 ^ p)" by simp
  from round_even_mono [OF this] have "round_even (x / 2 powi e) \<le> 2 ^ p"
    by (simp only: round_even_of_int)
  then have "real_of_int (round_even (x / 2 powi e)) \<le> real_of_int (2 ^ p)"
    by (simp only: of_int_le_iff)
  then have "of_int (round_even (x / 2 powi e)) * 2 powi e \<le> (2 :: real) ^ p * 2 powi e"
    by (intro mult_right_mono) simp_all
  then show ?thesis
    unfolding fl_round_pos [OF assms(1)] K_def [symmetric] e_def [symmetric]
      \<open>(2 :: real) powi (K + 1) = 2 ^ p * 2 powi e\<close> .
qed

lemma fl_round_lower:
  assumes "0 < x" and "0 < p" and "emin \<le> \<lfloor>log 2 x\<rfloor>"
  shows "2 powi \<lfloor>log 2 x\<rfloor> \<le> fl_round p emin x"
proof -
  define k where "k = \<lfloor>log 2 x\<rfloor>"
  define e where "e = k - (int p - 1)"
  have K: "max k emin = k" using assms(3) by (simp add: k_def)
  have kx: "2 powi k \<le> x" unfolding k_def by (rule floor_log2_bounds [OF assms(1)])
  have pk: "(2 :: real) powi k = 2 ^ (p - 1) * 2 powi e"
  proof -
    have "k = int (p - 1) + e" using assms(2) by (simp add: e_def of_nat_diff)
    then show ?thesis by (simp add: power_int_add)
  qed
  from kx have "2 ^ (p - 1) \<le> x / 2 powi e" by (simp add: pk field_simps)
  then have "of_int (2 ^ (p - 1)) \<le> x / 2 powi e" by simp
  from round_even_mono [OF this] have "2 ^ (p - 1) \<le> round_even (x / 2 powi e)"
    by (simp only: round_even_of_int)
  then have "real_of_int (2 ^ (p - 1)) \<le> real_of_int (round_even (x / 2 powi e))"
    by (simp only: of_int_le_iff)
  then have "(2 :: real) ^ (p - 1) * 2 powi e \<le> of_int (round_even (x / 2 powi e)) * 2 powi e"
    by (intro mult_right_mono) simp_all
  then show ?thesis
    unfolding fl_round_pos [OF assms(1)] k_def [symmetric] K e_def [symmetric] pk .
qed

text \<open>Rounding keeps the order of the numbers that are not negative.\<close>

lemma fl_round_mono:
  assumes "0 \<le> x" and "x \<le> y" and "0 < p"
  shows "fl_round p emin x \<le> fl_round p emin y"
proof (cases "x = 0")
  case True
  then show ?thesis using fl_round_nonneg [of y p emin] assms by simp
next
  case False
  with assms have x: "0 < x" and y: "0 < y" by simp_all
  define Kx where "Kx = max \<lfloor>log 2 x\<rfloor> emin"
  define Ky where "Ky = max \<lfloor>log 2 y\<rfloor> emin"
  have "log 2 x \<le> log 2 y" using x assms(2) by simp
  then have kk: "\<lfloor>log 2 x\<rfloor> \<le> \<lfloor>log 2 y\<rfloor>" by (rule floor_mono)
  then have KK: "Kx \<le> Ky" by (simp add: Kx_def Ky_def)
  show ?thesis
  proof (cases "Kx = Ky")
    case True
    define e where "e = Kx - (int p - 1)"
    have "x / 2 powi e \<le> y / 2 powi e" using assms(2) by (simp add: divide_right_mono)
    from round_even_mono [OF this]
    have "real_of_int (round_even (x / 2 powi e)) \<le> real_of_int (round_even (y / 2 powi e))"
      by (simp only: of_int_le_iff)
    then have "of_int (round_even (x / 2 powi e)) * 2 powi e
               \<le> of_int (round_even (y / 2 powi e)) * (2 :: real) powi e"
      by (intro mult_right_mono) simp_all
    then show ?thesis
      unfolding fl_round_pos [OF x] fl_round_pos [OF y] Kx_def [symmetric] Ky_def [symmetric]
        True [symmetric] e_def [symmetric] .
  next
    case False
    with KK have lt: "Kx + 1 \<le> Ky" by simp
    have ey: "emin \<le> \<lfloor>log 2 y\<rfloor>" "Ky = \<lfloor>log 2 y\<rfloor>"
      using lt by (simp_all add: Kx_def Ky_def)
    have "fl_round p emin x \<le> 2 powi (Kx + 1)"
      unfolding Kx_def by (rule fl_round_upper [OF x assms(3)])
    also have "\<dots> \<le> 2 powi Ky" using lt by (rule power_int_increasing) simp
    also have "\<dots> \<le> fl_round p emin y"
      unfolding ey(2) by (rule fl_round_lower [OF y assms(3) ey(1)])
    finally show ?thesis .
  qed
qed

lemma fl_round_of_nat:
  assumes "n < 2 ^ p" and "emin \<le> int p - 1"
  shows "fl_round p emin (real n) = real n"
proof -
  have "\<bar>int n\<bar> < 2 ^ p" using assms(1) by (simp add: of_nat_less_iff [of n "2 ^ p", where ?'a = int, simplified])
  from fl_round_representable [OF this, of emin 0] assms(2) show ?thesis by simp
qed

lemma fl_round_le_nat:
  assumes "0 \<le> x" and "x \<le> real n" and "n < 2 ^ p" and "emin \<le> int p - 1" and "0 < p"
  shows "fl_round p emin x \<le> real n"
  using fl_round_mono [OF assms(1,2,5), of emin] fl_round_of_nat [OF assms(3,4)] by simp

lemma round_double_eq:
  assumes "2 powi (e + 52) \<le> \<bar>x\<bar>" and "\<bar>x\<bar> < 2 powi (e + 53)" and "- 1074 \<le> e"
    and "round_even (x / 2 powi e) = m"
  shows "round_double x = of_int m * 2 powi e"
  unfolding round_double_def
  by (rule fl_round_eq) (use assms in simp_all)

lemma round_double_dyadic:
  assumes "\<bar>m\<bar> < 2 ^ 53" and "- 1074 \<le> j"
  shows "round_double (of_int m * 2 powi j) = of_int m * 2 powi j"
  unfolding round_double_def
  by (rule fl_round_representable) (use assms in simp_all)

lemma round_float_dyadic:
  assumes "\<bar>m\<bar> < 2 ^ 24" and "- 149 \<le> j"
  shows "round_float (of_int m * 2 powi j) = of_int m * 2 powi j"
  unfolding round_float_def
  by (rule fl_round_representable) (use assms in simp_all)

lemma round_double_nat:
  assumes "n < 2 ^ 53"
  shows "round_double (real n) = real n"
  unfolding round_double_def by (rule fl_round_of_nat) (use assms in simp_all)

lemma round_double_0 [simp]: "round_double 0 = 0"
  by (simp add: round_double_def)

lemma round_double_1 [simp]: "round_double 1 = 1"
  using round_double_nat [of 1] by simp

lemma round_double_nonneg: "0 \<le> x \<Longrightarrow> 0 \<le> round_double x"
  unfolding round_double_def by (rule fl_round_nonneg)

lemma round_double_mono: "0 \<le> x \<Longrightarrow> x \<le> y \<Longrightarrow> round_double x \<le> round_double y"
  unfolding round_double_def by (rule fl_round_mono) simp_all

lemma round_double_le_nat:
  assumes "0 \<le> x" and "x \<le> real n" and "n < 2 ^ 53"
  shows "round_double x \<le> real n"
  using round_double_mono [OF assms(1,2)] round_double_nat [OF assms(3)] by simp

section \<open>The constructor of a worker\<close>

lemma Convolver_new_maxzeroblocks:
  "bsize \<noteq> 0 \<Longrightarrow>
   \<exists>c errs. Convolver_new env cx i bsize parts d = Inr (c, errs)
     \<and> blocksize c = bsize \<and> partitions c = parts \<and> zeroblocks c = 0
     \<and> maxzeroblocks c = parts + (2400 div bsize) + 1"
  by (cases "pthread_create env i")
     (simp_all add: Convolver_new_def Process_init_def maxadditionaldelay_def Let_def)

lemma Process_init_Inr:
  "bsize \<noteq> 0 \<Longrightarrow>
   \<exists>l. Process_init env bsize = Inr l
     \<and> delaylen l = (1 + ((2400 + bsize - 1) div bsize)) * bsize
     \<and> maxdelay l = delaylen l - bsize - 1 - FractionalSampleAdditionalDelayRequired env
     \<and> delaypos l = 0 \<and> delaymem l = replicate (unat (delaylen l)) 0
     \<and> level1 l = 1 \<and> delay1 l = 0"
  by (simp add: Process_init_def maxadditionaldelay_def Let_def)

lemma Convolver_new_thread:
  assumes "bsize \<noteq> 0" and "pthread_create env i"
  shows "\<exists>c errs l. Convolver_new env cx i bsize parts d = Inr (c, errs)
     \<and> thread c = Some l \<and> Process_init env bsize = Inr l"
  using assms
  by (simp add: Convolver_new_def Process_init_def Let_def)

lemma delaylen_unat:
  fixes bsize :: uint_t
  assumes "bsize \<noteq> 0" and "2400 + 2 * unat bsize \<le> 2 ^ 32"
  shows "unat ((1 + ((2400 + bsize - 1) div bsize)) * bsize)
         = (1 + (2400 + unat bsize - 1) div unat bsize) * unat bsize"
proof -
  define B where "B = unat bsize"
  define q where "q = (2400 + B - 1) div B"
  have B: "0 < B" using assms(1) by (simp add: unat_gt_0 B_def)
  have B2: "2400 + 2 * B \<le> 4294967296" using assms(2) by (simp add: B_def)
  have a: "unat (2400 + bsize - 1) = 2400 + B - 1"
  proof -
    have "2400 + bsize - 1 = 2399 + bsize" by simp
    moreover have "unat ((2399 :: uint_t) + bsize) = 2399 + B"
      unfolding B_def using assms(2) by (subst unat_add_lem [THEN iffD1]) simp_all
    ultimately show ?thesis by simp
  qed
  define w where "w = (2400 + bsize - 1) div bsize"
  have q: "unat w = q"
    by (simp only: unat_div a q_def B_def w_def)
  have qle: "q * B \<le> 2400 + B - 1"
    unfolding q_def by (rule div_times_less_eq_dividend)
  have "q \<le> q * B" using B by simp
  with qle B2 have "1 + q < 4294967296" by linarith
  then have "unat (1 :: uint_t) + unat w < 2 ^ LENGTH(32)"
    by (simp add: q)
  then have q1: "unat (1 + w) = 1 + q"
    by (simp only: unat_add_lem [THEN iffD1] q unat_1)
  have "(1 + q) * B = q * B + B" by (simp add: algebra_simps)
  with qle B2 B have "(1 + q) * B < 4294967296" by linarith
  then have "unat (1 + w) * unat bsize < 2 ^ LENGTH(32)"
    by (simp add: q1 B_def)
  then have "unat ((1 + w) * bsize) = (1 + q) * B"
    by (simp only: unat_mult_lem [THEN iffD1] q1 B_def)
  then show ?thesis by (simp only: q_def B_def w_def)
qed

lemma example_worker_new:
  "Convolver_new example_extern 2 0 2 1 0 = Inr (example_worker, [])"
  by (simp add: Convolver_new_def Process_init_def example_extern_def example_worker_def
      example_locals_def maxadditionaldelay_def Let_def upt_0_2)

text \<open>
  Claim C3. The threshold of the silence gate that the constructor computes is
  \<open>partitions + maxadditionaldelay / blocksize + 1\<close> with the integer division of
  \<open>uint_t\<close>: the quotient is rounded down, not up, and the sum is taken modulo \<open>2 ^ 32\<close>.
  \<open>maxadditionaldelay\<close> is 2400. The block size must not be zero.
\<close>

theorem Convolver_maxzeroblocks_floor:
  assumes "bsize \<noteq> 0"
  shows "\<exists>c errs. Convolver_new env cx i bsize parts d = Inr (c, errs)
     \<and> maxzeroblocks c = parts + (maxadditionaldelay div bsize) + 1
     \<and> int (unat (maxzeroblocks c))
        = (int (unat parts) + \<lfloor>2400 / real (unat bsize)\<rfloor> + 1) mod 2 ^ 32"
proof -
  from Convolver_new_maxzeroblocks [OF assms] obtain c errs where
    c: "Convolver_new env cx i bsize parts d = Inr (c, errs)"
       "maxzeroblocks c = parts + (2400 div bsize) + 1" by blast
  have "unat ((2400 :: uint_t) div bsize) = 2400 div unat bsize"
    by (simp add: unat_div)
  then have "unat (parts + (2400 div bsize) + 1) = (unat parts + 2400 div unat bsize + 1) mod 2 ^ 32"
    by (simp add: unat_word_ariths mod_simps)
  then have "int (unat (maxzeroblocks c)) = int ((unat parts + 2400 div unat bsize + 1) mod 2 ^ 32)"
    using c(2) by simp
  also have "\<dots> = (int (unat parts) + \<lfloor>2400 / real (unat bsize)\<rfloor> + 1) mod 2 ^ 32"
    using div_floor [of 2400 "unat bsize"] by (simp add: zmod_int ac_simps)
  finally show ?thesis using c by (auto simp: maxadditionaldelay_def)
qed

theorem Convolver_maxzeroblocks_floor_witness:
  "(128 :: uint_t) \<noteq> 0 \<and>
   (\<exists>c errs. Convolver_new example_extern 128 0 128 2 0 = Inr (c, errs)
     \<and> maxzeroblocks c = 2 + (maxadditionaldelay div 128) + 1
     \<and> int (unat (maxzeroblocks c))
        = (int (unat (2 :: uint_t)) + \<lfloor>2400 / real (unat (128 :: uint_t))\<rfloor> + 1) mod 2 ^ 32)"
proof -
  have h: "(128 :: uint_t) \<noteq> 0" by simp
  from Convolver_maxzeroblocks_floor [OF h, of example_extern 128 0 2 0] h
  show ?thesis by blast
qed

text \<open>
  With a block size of 128 and two partitions the threshold is 21, and the claimed
  \<open>P + \<lceil>2400 / B\<rceil> + 1\<close> is 22.
\<close>

theorem Convolver_maxzeroblocks_not_ceiling:
  "map_sum id (\<lambda>r. int (unat (maxzeroblocks (fst r))))
      (Convolver_new example_extern 128 0 128 2 0) = Inr 21
   \<and> 2 + \<lceil>2400 / (128 :: real)\<rceil> + 1 = 22"
proof -
  have "(128 :: uint_t) \<noteq> 0" by simp
  from Convolver_new_maxzeroblocks [OF this, of example_extern 128 0 2 0]
  obtain c errs where c: "Convolver_new example_extern 128 0 128 2 0 = Inr (c, errs)"
    "maxzeroblocks c = 2 + (2400 div 128) + 1" by blast
  have "maxzeroblocks c = 21" unfolding c(2) by simp
  moreover have "\<lceil>2400 / (128 :: real)\<rceil> = 19"
    by (simp add: ceiling_eq_iff)
  ultimately show ?thesis using c(1) by simp
qed

text \<open>
  Claim C7. The delay memory that a worker's thread allocates has
  \<open>(1 + (maxadditionaldelay + blocksize - 1) / blocksize) * blocksize\<close> samples, the
  division being the integer division of \<open>uint_t\<close>: the quotient is rounded down. This is
  \<open>\<lceil>(2400 + B) / B\<rceil> * B\<close>, the quantity of section 3 of the specification. The block size
  is not zero and small enough for the product not to wrap around.
\<close>

theorem Process_delaylen:
  assumes "bsize \<noteq> 0" and "2400 + 2 * unat bsize \<le> 2 ^ 32" and "pthread_create env i"
  shows "\<exists>c errs l. Convolver_new env cx i bsize parts d = Inr (c, errs)
     \<and> thread c = Some l
     \<and> length (delaymem l) = unat (delaylen l)
     \<and> int (unat (delaylen l))
         = (1 + \<lfloor>(2400 + real (unat bsize) - 1) / real (unat bsize)\<rfloor>) * int (unat bsize)
     \<and> int (unat (delaylen l))
         = \<lceil>(2400 + real (unat bsize)) / real (unat bsize)\<rceil> * int (unat bsize)"
proof -
  define B where "B = unat bsize"
  have B: "0 < B" using assms(1) by (simp add: unat_gt_0 B_def)
  from Convolver_new_thread [OF assms(1,3)] obtain c errs l where
    c: "Convolver_new env cx i bsize parts d = Inr (c, errs)" "thread c = Some l"
       "Process_init env bsize = Inr l" by blast
  from Process_init_Inr [OF assms(1), of env] c(3) have
    l: "delaylen l = (1 + ((2400 + bsize - 1) div bsize)) * bsize"
       "delaymem l = replicate (unat (delaylen l)) 0" by auto
  have len: "length (delaymem l) = unat (delaylen l)"
    by (subst l(2)) simp
  have u: "unat (delaylen l) = (1 + (2400 + B - 1) div B) * B"
    unfolding l(1) B_def by (rule delaylen_unat [OF assms(1,2)])
  have f: "\<lfloor>(2400 + real B - 1) / real B\<rfloor> = int ((2400 + B - 1) div B)"
  proof -
    have "2400 + real B - 1 = real (2400 + B - 1)" using B by simp
    then show ?thesis by (simp only: div_floor)
  qed
  have g: "\<lceil>(2400 + real B) / real B\<rceil> = int (1 + (2400 + B - 1) div B)"
  proof -
    have "\<lceil>real (2400 + B) / real B\<rceil> = int ((2400 + B + B - 1) div B)"
      by (rule ceil_div_nat [OF B])
    moreover have "(2400 + B + B - 1) div B = 1 + (2400 + B - 1) div B"
    proof -
      have "2400 + B + B - 1 = (2400 + B - 1) + B" using B by simp
      then show ?thesis using B by (simp only: div_add_self2)
    qed
    ultimately show ?thesis by simp
  qed
  have 1: "int (unat (delaylen l)) = (1 + \<lfloor>(2400 + real B - 1) / real B\<rfloor>) * int B"
    by (simp only: u f) (simp add: algebra_simps)
  have 2: "int (unat (delaylen l)) = \<lceil>(2400 + real B) / real B\<rceil> * int B"
    by (simp only: u g) (simp add: algebra_simps)
  show ?thesis using c(1,2) len 1 2 unfolding B_def by blast
qed

theorem Process_delaylen_witness:
  "(2 :: uint_t) \<noteq> 0 \<and> 2400 + 2 * unat (2 :: uint_t) \<le> 2 ^ 32
   \<and> pthread_create example_extern 0
   \<and> (\<exists>c errs l. Convolver_new example_extern 2 0 2 1 0 = Inr (c, errs)
        \<and> thread c = Some l \<and> length (delaymem l) = 2402 \<and> unat (delaylen l) = 2402)"
proof -
  have h: "(2 :: uint_t) \<noteq> 0" "2400 + 2 * unat (2 :: uint_t) \<le> 2 ^ 32"
    "pthread_create example_extern 0"
    by (simp_all add: example_extern_def)
  from Process_delaylen [OF h, of 2 1 0] obtain c errs l where
    c: "Convolver_new example_extern 2 0 2 1 0 = Inr (c, errs)" "thread c = Some l"
       "length (delaymem l) = unat (delaylen l)"
       "int (unat (delaylen l))
         = (1 + \<lfloor>(2400 + real (unat (2 :: uint_t)) - 1) / real (unat (2 :: uint_t))\<rfloor>)
           * int (unat (2 :: uint_t))"
    by blast
  have "\<lfloor>(2401 :: real) / 2\<rfloor> = 1200" by (simp add: floor_eq_iff)
  with c(4) have "int (unat (delaylen l)) = 2402" by simp
  then have "unat (delaylen l) = 2402" by linarith
  with c h show ?thesis by auto
qed

text \<open>
  With a block size of 128 the delay memory has 2560 samples. The claimed
  \<open>(1 + \<lceil>(2400 + B - 1) / B\<rceil>) * B\<close> is 2688, and it is not the quantity of section 3,
  \<open>\<lceil>(2400 + B) / B\<rceil> * B\<close>, which is 2560.
\<close>

theorem Process_delaylen_not_ceiling:
  "map_sum id (\<lambda>r. map_option (\<lambda>l. (int (unat (delaylen l)), length (delaymem l))) (thread (fst r)))
      (Convolver_new example_extern 128 0 128 2 0) = Inr (Some (2560, 2560))
   \<and> (1 + \<lceil>(2400 + 128 - 1) / (128 :: real)\<rceil>) * 128 = 2688
   \<and> \<lceil>(2400 + 128) / (128 :: real)\<rceil> * 128 = 2560"
proof -
  have h: "(128 :: uint_t) \<noteq> 0" "pthread_create example_extern 0"
    by (simp_all add: example_extern_def)
  from Convolver_new_thread [OF h, of 128 2 0] obtain c errs l where
    c: "Convolver_new example_extern 128 0 128 2 0 = Inr (c, errs)" "thread c = Some l"
       "Process_init example_extern 128 = Inr l" by blast
  from Process_init_Inr [OF h(1), of example_extern] c(3) have
    l: "delaylen l = (1 + ((2400 + 128 - 1) div 128)) * 128"
       "delaymem l = replicate (unat (delaylen l)) 0" by auto
  have d: "delaylen l = 2560" unfolding l(1) by simp
  have m: "length (delaymem l) = 2560" by (subst l(2)) (simp add: d)
  have 1: "\<lceil>(2400 + 128 - 1) / (128 :: real)\<rceil> = 20" by (simp add: ceiling_eq_iff)
  have 2: "\<lceil>(2400 + 128) / (128 :: real)\<rceil> = 20" by (simp add: ceiling_eq_iff)
  show ?thesis using c(1,2) d m 1 2 by simp
qed

section \<open>The silence counter of a worker\<close>

lemma StartConvolution_Inr:
  assumes "list_all (\<lambda>i. off + unat ((word_of_nat i :: uint_t) * ic) < length buf)
             [0..<unat (blocksize c)]"
  shows "StartConvolution c buf off ic =
     Inr (let inp = map (\<lambda>i. buf ! (off + unat ((word_of_nat i :: uint_t) * ic)))
                      [0..<unat (blocksize c)];
              zb = (if list_ex (\<lambda>x. x \<noteq> 0) inp then 0
                    else if zeroblocks c < maxzeroblocks c then zeroblocks c + 1
                    else zeroblocks c)
          in c\<lparr>input_buf := inp, zeroblocks := zb,
               startsignal := (if zb < maxzeroblocks c then True else startsignal c)\<rparr>)"
proof -
  have "traverse (\<lambda>i. let k = off + unat ((word_of_nat i :: uint_t) * ic)
                       in if k < length buf then Inr (buf ! k) else Inl OutOfBounds)
          [0..<unat (blocksize c)]
        = Inr (map (\<lambda>i. buf ! (off + unat ((word_of_nat i :: uint_t) * ic)))
                 [0..<unat (blocksize c)])"
    using assms by (intro traverse_Inr) (simp add: list_all_iff Let_def)
  then show ?thesis by (simp add: StartConvolution_def Let_def)
qed

lemma StartConvolution_InrD:
  assumes "StartConvolution c buf off ic = Inr c'"
  shows "\<exists>inp. c' = c\<lparr>input_buf := inp,
               zeroblocks := (if list_ex (\<lambda>x. x \<noteq> 0) inp then 0
                    else if zeroblocks c < maxzeroblocks c then zeroblocks c + 1
                    else zeroblocks c),
               startsignal := (if (if list_ex (\<lambda>x. x \<noteq> 0) inp then 0
                    else if zeroblocks c < maxzeroblocks c then zeroblocks c + 1
                    else zeroblocks c) < maxzeroblocks c then True else startsignal c)\<rparr>
        \<and> length inp = unat (blocksize c)"
proof -
  from assms obtain inp where
    t: "traverse (\<lambda>i. let k = off + unat ((word_of_nat i :: uint_t) * ic)
                       in if k < length buf then Inr (buf ! k) else Inl OutOfBounds)
          [0..<unat (blocksize c)] = Inr inp"
    and c': "c' = c\<lparr>input_buf := inp,
               zeroblocks := (if list_ex (\<lambda>x. x \<noteq> 0) inp then 0
                    else if zeroblocks c < maxzeroblocks c then zeroblocks c + 1
                    else zeroblocks c),
               startsignal := (if (if list_ex (\<lambda>x. x \<noteq> 0) inp then 0
                    else if zeroblocks c < maxzeroblocks c then zeroblocks c + 1
                    else zeroblocks c) < maxzeroblocks c then True else startsignal c)\<rparr>"
    by (auto simp: StartConvolution_def bindF_eq_Inr Let_def)
  from traverse_InrD [OF t] have "length inp = unat (blocksize c)" by simp
  with c' show ?thesis by blast
qed

lemma StartConvolution_le:
  assumes "StartConvolution c buf off ic = Inr c'" and "zeroblocks c \<le> maxzeroblocks c"
  shows "zeroblocks c' \<le> maxzeroblocks c'"
proof -
  from StartConvolution_InrD [OF assms(1)] obtain inp where
    c': "c' = c\<lparr>input_buf := inp,
               zeroblocks := (if list_ex (\<lambda>x. x \<noteq> 0) inp then 0
                    else if zeroblocks c < maxzeroblocks c then zeroblocks c + 1
                    else zeroblocks c),
               startsignal := (if (if list_ex (\<lambda>x. x \<noteq> 0) inp then 0
                    else if zeroblocks c < maxzeroblocks c then zeroblocks c + 1
                    else zeroblocks c) < maxzeroblocks c then True else startsignal c)\<rparr>"
    by blast
  show ?thesis
    using assms(2) unfolding c' by (auto simp: inc_le)
qed

lemma EndConvolution_fields:
  assumes "EndConvolution c buf off oc lvl = Inr (c', b)"
  shows "c' = c \<or> c' = c\<lparr>donesignal := False\<rparr>"
  using assms by (auto simp: EndConvolution_def bindF_eq_Inr split: if_splits)

lemma Convolver_Convolve_fields:
  "zeroblocks (fst (Convolver_Convolve env c)) = zeroblocks c"
  "maxzeroblocks (fst (Convolver_Convolve env c)) = maxzeroblocks c"
  "blocksize (fst (Convolver_Convolve env c)) = blocksize c"
  "partitions (fst (Convolver_Convolve env c)) = partitions c"
  "input_buf (fst (Convolver_Convolve env c)) = input_buf c"
  "output_buf (fst (Convolver_Convolve env c)) = output_buf c"
  "outputlevel (fst (Convolver_Convolve env c)) = outputlevel c"
  "outputdelay (fst (Convolver_Convolve env c)) = outputdelay c"
  "hqproc (fst (Convolver_Convolve env c)) = hqproc c"
  "startsignal (fst (Convolver_Convolve env c)) = startsignal c"
  "donesignal (fst (Convolver_Convolve env c)) = donesignal c"
  "quitthread (fst (Convolver_Convolve env c)) = quitthread c"
  "filter_ptr (fst (Convolver_Convolve env c)) = filter_ptr c"
  "thread (fst (Convolver_Convolve env c)) = thread c"
  "convindex (fst (Convolver_Convolve env c)) = convindex c"
  by (simp_all add: Convolver_Convolve_def Let_def split: option.splits)

lemma Process_fill_InrD:
  assumes "Process_fill env c l = Inr (c1, mem)"
  shows "(c1 = c \<or> c1 = fst (Convolver_Convolve env c))
     \<and> unat (delaypos l) + unat (blocksize c) \<le> length (delaymem l)
     \<and> length mem = length (delaymem l)"
  using assms
  by (auto simp: Process_fill_def bindF_eq_Inr Let_def write_block_def split: if_splits)

lemma Process_block_InrD:
  assumes "Process_block env c l = Inr (c', l')"
  shows "\<exists>c1 mem out. Process_fill env c l = Inr (c1, mem) \<and> c' = c1\<lparr>output_buf := out\<rparr>"
  using assms
  by (auto simp: Process_block_def bindF_eq_Inr Let_def split: if_splits)

lemma Process_block_fields:
  assumes "Process_block env c l = Inr (c', l')"
  shows "zeroblocks c' = zeroblocks c \<and> maxzeroblocks c' = maxzeroblocks c
     \<and> blocksize c' = blocksize c \<and> partitions c' = partitions c
     \<and> input_buf c' = input_buf c \<and> startsignal c' = startsignal c
     \<and> donesignal c' = donesignal c \<and> thread c' = thread c
     \<and> outputlevel c' = outputlevel c \<and> outputdelay c' = outputdelay c
     \<and> hqproc c' = hqproc c \<and> quitthread c' = quitthread c
     \<and> filter_ptr c' = filter_ptr c \<and> convindex c' = convindex c"
proof -
  from Process_block_InrD [OF assms] obtain c1 mem out where
    1: "Process_fill env c l = Inr (c1, mem)" and 2: "c' = c1\<lparr>output_buf := out\<rparr>" by blast
  from Process_fill_InrD [OF 1] have "c1 = c \<or> c1 = fst (Convolver_Convolve env c)" by simp
  then show ?thesis
    unfolding 2 by (auto simp: Convolver_Convolve_fields)
qed

lemma Process_step_zeroblocks:
  assumes "Process_step env c = Inr c'"
  shows "zeroblocks c' = zeroblocks c \<and> maxzeroblocks c' = maxzeroblocks c
     \<and> blocksize c' = blocksize c"
  using assms
  by (auto simp: Process_step_def bindF_eq_Inr split: option.splits if_splits
      dest!: Process_block_fields)

lemma worker_state_zeroblocks:
  "worker_state env c \<Longrightarrow> zeroblocks c \<le> maxzeroblocks c"
proof (induction rule: worker_state.induct)
  case (ws_new cx i bsize parts d c errs)
  then show ?case
    by (auto simp: Convolver_new_def bindF_eq_Inr split: if_splits)
next
  case (ws_start c buf off ic c')
  then show ?case by (auto intro: StartConvolution_le)
next
  case (ws_end c buf off oc lvl c' b)
  then show ?case by (auto dest: EndConvolution_fields)
next
  case (ws_step c c')
  then show ?case by (auto dest: Process_step_zeroblocks)
next
  case (ws_params c lvl d hq)
  then show ?case by (simp add: SetParameters_def)
next
  case (ws_filter c f)
  then show ?case by (simp add: SetFilter_def)
qed

text \<open>
  Claim C2. \<open>StartConvolution\<close> de-interleaves the block, sets \<open>zeroblocks\<close> to zero
  when a sample of the block is not zero and otherwise adds one to it unless it has
  reached \<open>maxzeroblocks\<close>, and raises the start signal exactly when the new count is
  below \<open>maxzeroblocks\<close> (the flag stays set if it was). The threshold does not change,
  and in every state that a worker reaches the count is at most the threshold. The
  hypothesis is that the block lies inside the caller's buffer.
\<close>

theorem StartConvolution_zeroblocks:
  assumes "list_all (\<lambda>i. off + unat ((word_of_nat i :: uint_t) * ic) < length buf)
             [0..<unat (blocksize c)]"
  shows "\<exists>c'. StartConvolution c buf off ic = Inr c'
     \<and> input_buf c' = map (\<lambda>i. buf ! (off + unat ((word_of_nat i :: uint_t) * ic)))
                           [0..<unat (blocksize c)]
     \<and> maxzeroblocks c' = maxzeroblocks c
     \<and> zeroblocks c' = (if \<exists>x \<in> set (input_buf c'). x \<noteq> 0 then 0
                         else if zeroblocks c < maxzeroblocks c then zeroblocks c + 1
                         else zeroblocks c)
     \<and> (zeroblocks c \<le> maxzeroblocks c \<longrightarrow> (\<forall>x \<in> set (input_buf c'). x = 0) \<longrightarrow>
          unat (zeroblocks c') = min (unat (zeroblocks c) + 1) (unat (maxzeroblocks c)))
     \<and> (startsignal c' \<longleftrightarrow> startsignal c \<or> zeroblocks c' < maxzeroblocks c')
     \<and> (zeroblocks c \<le> maxzeroblocks c \<longrightarrow> zeroblocks c' \<le> maxzeroblocks c')
     \<and> (\<forall>w. worker_state env w \<longrightarrow> zeroblocks w \<le> maxzeroblocks w)"
proof -
  define inp where "inp = map (\<lambda>i. buf ! (off + unat ((word_of_nat i :: uint_t) * ic)))
                           [0..<unat (blocksize c)]"
  define zb where "zb = (if list_ex (\<lambda>x. x \<noteq> 0) inp then 0
                    else if zeroblocks c < maxzeroblocks c then zeroblocks c + 1
                    else zeroblocks c)"
  define c' where "c' = c\<lparr>input_buf := inp, zeroblocks := zb,
               startsignal := (if zb < maxzeroblocks c then True else startsignal c)\<rparr>"
  have s: "StartConvolution c buf off ic = Inr c'"
    using StartConvolution_Inr [OF assms] by (simp add: c'_def zb_def inp_def Let_def)
  have 1: "input_buf c' = inp" "maxzeroblocks c' = maxzeroblocks c" "zeroblocks c' = zb"
    by (simp_all add: c'_def)
  have 2: "zb = (if \<exists>x \<in> set inp. x \<noteq> 0 then 0
                 else if zeroblocks c < maxzeroblocks c then zeroblocks c + 1
                 else zeroblocks c)"
    by (simp add: zb_def list_ex_iff)
  have 3: "unat zb = min (unat (zeroblocks c) + 1) (unat (maxzeroblocks c))"
    if "zeroblocks c \<le> maxzeroblocks c" "\<forall>x \<in> set inp. x = 0"
  proof (cases "zeroblocks c < maxzeroblocks c")
    case True
    then have "unat (zeroblocks c) < unat (maxzeroblocks c)" by (simp add: word_less_nat_alt)
    moreover have "unat (zeroblocks c + 1) = unat (zeroblocks c) + 1"
    proof -
      have "unat (maxzeroblocks c) < 2 ^ LENGTH(32)" by (rule unsigned_less)
      with calculation have "unat (zeroblocks c) + unat (1 :: uint_t) < 2 ^ LENGTH(32)"
        by simp
      then show ?thesis by (simp only: unat_add_lem [THEN iffD1] unat_1)
    qed
    ultimately show ?thesis using that True by (simp add: 2)
  next
    case False
    with that(1) have "zeroblocks c = maxzeroblocks c" by simp
    then show ?thesis using that by (simp add: 2)
  qed
  have 4: "startsignal c' \<longleftrightarrow> startsignal c \<or> zeroblocks c' < maxzeroblocks c'"
    by (simp add: c'_def)
  have 5: "zeroblocks c \<le> maxzeroblocks c \<longrightarrow> zeroblocks c' \<le> maxzeroblocks c'"
    using StartConvolution_le [OF s] by blast
  show ?thesis
    using s 1 2 3 4 5 worker_state_zeroblocks [of env] unfolding inp_def [symmetric]
    by (intro exI [of _ c']) simp
qed

theorem StartConvolution_zeroblocks_witness:
  "list_all (\<lambda>i. 0 + unat ((word_of_nat i :: uint_t) * 2) < length [0, 0, 0, 0 :: real])
      [0..<unat (blocksize example_worker)]
   \<and> zeroblocks example_worker \<le> maxzeroblocks example_worker
   \<and> worker_state example_extern example_worker
   \<and> (\<exists>c'. StartConvolution example_worker [0, 0, 0, 0] 0 2 = Inr c'
         \<and> input_buf c' = [0, 0] \<and> unat (zeroblocks c') = 1 \<and> startsignal c'
         \<and> zeroblocks c' \<le> maxzeroblocks c')"
proof -
  have h: "list_all (\<lambda>i. 0 + unat ((word_of_nat i :: uint_t) * 2) < length [0, 0, 0, 0 :: real])
      [0..<unat (blocksize example_worker)]"
    by (simp add: example_worker_def upt_0_2)
  have z: "zeroblocks example_worker \<le> maxzeroblocks example_worker"
    by (simp add: example_worker_def)
  have w: "worker_state example_extern example_worker"
    using example_worker_new by (rule ws_new)
  from StartConvolution_zeroblocks [OF h, of example_extern] obtain c' where
    c': "StartConvolution example_worker [0, 0, 0, 0] 0 2 = Inr c'"
      "input_buf c' = map (\<lambda>i. [0, 0, 0, 0 :: real] ! (0 + unat ((word_of_nat i :: uint_t) * 2)))
                           [0..<unat (blocksize example_worker)]"
      "zeroblocks example_worker \<le> maxzeroblocks example_worker \<longrightarrow>
         (\<forall>x \<in> set (input_buf c'). x = 0) \<longrightarrow>
          unat (zeroblocks c')
            = min (unat (zeroblocks example_worker) + 1) (unat (maxzeroblocks example_worker))"
      "startsignal c' \<longleftrightarrow> startsignal example_worker \<or> zeroblocks c' < maxzeroblocks c'"
      "zeroblocks example_worker \<le> maxzeroblocks example_worker
         \<longrightarrow> zeroblocks c' \<le> maxzeroblocks c'"
    by blast
  have i: "input_buf c' = [0, 0]"
    unfolding c'(2) by (simp add: example_worker_def upt_0_2)
  have u: "unat (zeroblocks c') = 1"
    using c'(3) z by (simp add: i) (simp add: example_worker_def)
  have "maxzeroblocks c' = 1202"
    using StartConvolution_InrD [OF c'(1)] by (auto simp: example_worker_def)
  moreover from u have "zeroblocks c' = 1" by (metis unat_1 word_unat_eq_iff)
  ultimately have "startsignal c'" using c'(4) by simp
  with h z w c'(1) i u c'(5) show ?thesis by blast
qed

section \<open>The parameters of a worker\<close>

text \<open>
  Claim C10. When the stored impulse response index of worker \<open>cv\<close> is not below the
  number of filters, \<open>UpdateConvolverParameters\<close> returns the manager as it was: no
  worker changes and nothing is reported.
\<close>

theorem UpdateConvolverParameters_no_filter:
  assumes "unat cv < length (parameters m)"
    and "length (filters m) \<le> unat (irindex (parameters m ! unat cv))"
  shows "UpdateConvolverParameters m cv = Inr m"
  using assms by (simp add: UpdateConvolverParameters_def Let_def)

theorem UpdateConvolverParameters_no_filter_witness:
  "unat (0 :: uint_t) < length (parameters example_manager_no_filters)
   \<and> length (filters example_manager_no_filters)
       \<le> unat (irindex (parameters example_manager_no_filters ! unat (0 :: uint_t)))
   \<and> UpdateConvolverParameters example_manager_no_filters 0 = Inr example_manager_no_filters"
proof -
  have h: "unat (0 :: uint_t) < length (parameters example_manager_no_filters)"
    "length (filters example_manager_no_filters)
       \<le> unat (irindex (parameters example_manager_no_filters ! unat (0 :: uint_t)))"
    by (simp_all add: example_manager_no_filters_def)
  from UpdateConvolverParameters_no_filter [OF h] h show ?thesis by blast
qed

lemma example_manager_no_filters_reached:
  "bindF (SetIRDelays (ConvolverManager_new example_extern 2) [1] 1 [2])
     (\<lambda>m. SetConvolverCount example_extern m 1) = Inr example_manager_no_filters"
proof -
  have n: "Convolver_new example_extern 2 0 2 0 0 = Inr (example_worker0, [])"
    by (simp add: Convolver_new_def Process_init_def example_extern_def example_worker_def
      example_worker0_def example_locals_def maxadditionaldelay_def Let_def upt_0_2)
  have u: "uninit_double example_extern = 0" by (simp add: example_extern_def)
  show ?thesis
    by (simp add: SetIRDelays_def ConvolverManager_new_def SetConvolverCount_def Let_def n
        SelectIR_def example_manager_no_filters_def u)
qed

lemma UpdateConvolverParameters_Inr:
  assumes "unat cv < length (convolvers m)" and "unat cv < length (parameters m)"
    and "unat (irindex (parameters m ! unat cv)) < length (filters m)"
  shows "UpdateConvolverParameters m cv =
     Inr (m\<lparr>convolvers := (convolvers m)[unat cv :=
            (convolvers m ! unat cv)
              \<lparr>filter_ptr := Some (unat (irindex (parameters m ! unat cv))),
               outputlevel := level (parameters m ! unat cv),
               outputdelay :=
                 (if unat (irindex (parameters m ! unat cv)) < length (irdelays m)
                  then snd (irdelays m ! unat (irindex (parameters m ! unat cv)))
                       + fst (irdelays m ! unat (irindex (parameters m ! unat cv))) * delayscale m
                  else 0) + delay (parameters m ! unat cv),
               hqproc := m_hqproc m\<rparr>]\<rparr>)"
  using assms
  by (simp add: UpdateConvolverParameters_def Let_def SetFilter_def SetParameters_def)




text \<open>
  Claim C6. Take a call of \<open>SelectIR\<close> for which the parameter table has an entry at
  the worker index whenever both indices are in range, as it has whenever the table is
  at least as long as the list of workers. The call returns true exactly when the worker
  index and the filter index are in range. Then it stores the index, the level and the
  delay for the worker and updates that worker from them. Otherwise it reports an error
  and changes neither the table nor any worker.
\<close>

theorem SelectIR_result:
  assumes "unat cv < length (convolvers m) \<Longrightarrow> unat ir < length (filters m)
           \<Longrightarrow> unat cv < length (parameters m)"
  shows "\<exists>m'. SelectIR m cv ir lvl dly
        = Inr (unat cv < length (convolvers m) \<and> unat ir < length (filters m), m')
     \<and> (if unat cv < length (convolvers m) \<and> unat ir < length (filters m)
         then m' = m\<lparr>parameters := (parameters m)
                        [unat cv := \<lparr>irindex = ir, delay = dly, level = lvl\<rparr>],
                      convolvers := (convolvers m)[unat cv :=
                        (convolvers m ! unat cv)
                          \<lparr>filter_ptr := Some (unat ir),
                           outputlevel := lvl,
                           outputdelay :=
                             (if unat ir < length (irdelays m)
                              then snd (irdelays m ! unat ir)
                                   + fst (irdelays m ! unat ir) * delayscale m
                              else 0) + dly,
                           hqproc := m_hqproc m\<rparr>]\<rparr>
         else parameters m' = parameters m \<and> convolvers m' = convolvers m
              \<and> (\<exists>e. m' = m\<lparr>errors := errors m @ [e]\<rparr>))"
proof (cases "unat cv < length (convolvers m) \<and> unat ir < length (filters m)")
  case True
  with assms have pl: "unat cv < length (parameters m)" by blast
  define m1 where "m1 = m\<lparr>parameters := (parameters m)
                        [unat cv := \<lparr>irindex = ir, delay = dly, level = lvl\<rparr>]\<rparr>"
  have p: "parameters m1 ! unat cv = \<lparr>irindex = ir, delay = dly, level = lvl\<rparr>"
    using pl by (simp add: m1_def)
  have "UpdateConvolverParameters m1 cv =
     Inr (m1\<lparr>convolvers := (convolvers m1)[unat cv :=
            (convolvers m1 ! unat cv)
              \<lparr>filter_ptr := Some (unat (irindex (parameters m1 ! unat cv))),
               outputlevel := level (parameters m1 ! unat cv),
               outputdelay :=
                 (if unat (irindex (parameters m1 ! unat cv)) < length (irdelays m1)
                  then snd (irdelays m1 ! unat (irindex (parameters m1 ! unat cv)))
                       + fst (irdelays m1 ! unat (irindex (parameters m1 ! unat cv))) * delayscale m1
                  else 0) + delay (parameters m1 ! unat cv),
               hqproc := m_hqproc m1\<rparr>]\<rparr>)"
    using True pl by (intro UpdateConvolverParameters_Inr) (simp_all add: p, simp_all add: m1_def)
  then show ?thesis
    using True pl unfolding p by (simp add: SelectIR_def m1_def)
next
  case False
  then show ?thesis by (auto simp: SelectIR_def)
qed

theorem SelectIR_result_witness:
  "unat (0 :: uint_t) < length (convolvers example_manager)
   \<and> unat (0 :: uint_t) < length (filters example_manager)
   \<and> unat (0 :: uint_t) < length (parameters example_manager)
   \<and> (\<exists>m'. SelectIR example_manager 0 0 (1 / 2) 7 = Inr (True, m')
        \<and> parameters m' = [\<lparr>irindex = 0, delay = 7, level = 1 / 2\<rparr>]
        \<and> outputdelay (convolvers m' ! 0) = 10
        \<and> outputlevel (convolvers m' ! 0) = 1 / 2)
   \<and> length (filters example_manager) = 1
   \<and> (\<exists>m'. SelectIR example_manager 0 1 (1 / 2) 7 = Inr (False, m')
        \<and> parameters m' = parameters example_manager
        \<and> convolvers m' = convolvers example_manager)
   \<and> length (convolvers example_manager_growing) = 1
   \<and> length (parameters example_manager_growing) = 2
   \<and> (\<exists>m'. SelectIR example_manager_growing 0 0 (1 / 2) 7 = Inr (True, m')
        \<and> parameters m' = [\<lparr>irindex = 0, delay = 7, level = 1 / 2\<rparr>,
                            \<lparr>irindex = 0, delay = 0, level = 0\<rparr>]
        \<and> outputdelay (convolvers m' ! 0) = 10
        \<and> outputlevel (convolvers m' ! 0) = 1 / 2)"
proof -
  have h: "unat (0 :: uint_t) < length (convolvers example_manager)"
    "unat (0 :: uint_t) < length (filters example_manager)"
    "unat (0 :: uint_t) < length (parameters example_manager)"
    "length (filters example_manager) = 1"
    "length (convolvers example_manager_growing) = 1"
    "length (parameters example_manager_growing) = 2"
    by (simp_all add: example_manager_def example_manager_growing_def)
  have "\<exists>m'. SelectIR example_manager 0 0 (1 / 2) 7 = Inr (True, m')
        \<and> parameters m' = [\<lparr>irindex = 0, delay = 7, level = 1 / 2\<rparr>]
        \<and> outputdelay (convolvers m' ! 0) = 10
        \<and> outputlevel (convolvers m' ! 0) = 1 / 2"
    using SelectIR_result [of 0 example_manager 0 "1 / 2" 7]
    by (simp add: example_manager_def)
  moreover have "\<exists>m'. SelectIR example_manager 0 1 (1 / 2) 7 = Inr (False, m')
        \<and> parameters m' = parameters example_manager
        \<and> convolvers m' = convolvers example_manager"
    using SelectIR_result [of 0 example_manager 1 "1 / 2" 7]
    by (auto simp: example_manager_def)
  moreover have "\<exists>m'. SelectIR example_manager_growing 0 0 (1 / 2) 7 = Inr (True, m')
        \<and> parameters m' = [\<lparr>irindex = 0, delay = 7, level = 1 / 2\<rparr>,
                            \<lparr>irindex = 0, delay = 0, level = 0\<rparr>]
        \<and> outputdelay (convolvers m' ! 0) = 10
        \<and> outputlevel (convolvers m' ! 0) = 1 / 2"
    using SelectIR_result [of 0 example_manager_growing 0 "1 / 2" 7]
    by (simp add: example_manager_def example_manager_growing_def)
  ultimately show ?thesis using h by blast
qed

section \<open>The update flag\<close>

lemma SetDelayScale_flag: "updateparameters (SetDelayScale m scale)"
  by (simp add: SetDelayScale_def)

lemma EnableHQProcessing_flag: "updateparameters (EnableHQProcessing m enable)"
  by (simp add: EnableHQProcessing_def)

lemma LoadIRDelays_flag:
  "updateparameters (LoadIRDelays m file)
     = (case file of Opened scans \<Rightarrow> True | _ \<Rightarrow> updateparameters m)"
  by (simp add: LoadIRDelays_def Let_def split: delayfile.splits)

lemma SetIRDelays_flag:
  "SetIRDelays m dd n ds = Inr m' \<Longrightarrow> updateparameters m' = updateparameters m"
  by (auto simp: SetIRDelays_def Let_def bindF_eq_Inr split: if_splits)

lemma SelectIR_flag:
  "SelectIR m cv ir lvl dly = Inr (ok, m') \<Longrightarrow> updateparameters m' = updateparameters m"
  by (auto simp: SelectIR_def UpdateConvolverParameters_def Let_def bindF_eq_Inr
      split: if_splits)

lemma foldM_snoc:
  "foldM f (xs @ [x]) s = bindF (foldM f xs s) (f x)"
  by (induction xs arbitrary: s) (auto split: sum.splits)

lemma Convolve_end_flag:
  "Convolve_end oc i s = Inr s' \<Longrightarrow> updateparameters (fst s') = updateparameters (fst s)"
  by (auto simp: Convolve_end_def bindF_eq_Inr split: if_splits)

lemma Convolve_clears_flag:
  assumes "Convolve env m inbuf outbuf ic oc = Inr (m', out)"
  shows "\<not> updateparameters m'"
proof -
  from assms obtain m1 cs where
    f: "foldM (Convolve_end oc) [0..<length (convolvers m)]
          (m1\<lparr>convolvers := cs, updateparameters := False\<rparr>, outbuf) = Inr (m', out)"
    by (auto simp: Convolve_def bindF_eq_Inr)
  have "\<not> updateparameters (fst (m', out))"
    by (rule foldM_Inr_inv [OF f, where P = "\<lambda>s. \<not> updateparameters (fst s)"])
       (auto dest: Convolve_end_flag)
  then show ?thesis by simp
qed

text \<open>
  Claim C9. \<open>SetIRDelays\<close> replaces the delays of the example manager and leaves the
  update flag unset, where \<open>LoadIRDelays\<close> with the same pair from a file sets it.
\<close>

theorem SetIRDelays_leaves_flag:
  "\<not> updateparameters example_manager
   \<and> map_sum id (\<lambda>m. (irdelays m, updateparameters m))
       (SetIRDelays example_manager [10] 1 [20]) = Inr ([(10, 20)], False)
   \<and> (\<lambda>m. (irdelays m, updateparameters m))
       (LoadIRDelays example_manager (Opened [Both 10 20])) = ([(10, 20)], True)"
  by (simp add: SetIRDelays_def LoadIRDelays_def example_manager_def Let_def)

section \<open>The partitions of a filter\<close>

lemma double_to_uint_of_int:
  assumes "0 \<le> z" and "z < 2 ^ 32"
  shows "double_to_uint (of_int z) = Inr (word_of_int z)"
    and "unat (word_of_int z :: uint_t) = nat z"
proof -
  show "double_to_uint (of_int z) = Inr (word_of_int z)"
    using assms by (simp add: double_to_uint_def) 
  have "uint (word_of_int z :: uint_t) = z"
    using assms by (simp add: uint_word_of_int take_bit_eq_mod)
  then show "unat (word_of_int z :: uint_t) = nat z"
    by (simp add: unat_eq_nat_uint)
qed

lemma unat_ceil_div:
  fixes len bsize :: uint_t
  assumes "bsize \<noteq> 0" and "unat len + unat bsize \<le> 2 ^ 32"
  shows "int (unat ((len + bsize - 1) div bsize)) = \<lceil>real (unat len) / real (unat bsize)\<rceil>"
proof -
  have B: "0 < unat bsize" using assms(1) by (simp add: unat_gt_0)
  have 1: "1 \<le> bsize" using assms(1) by (simp add: word_le_nat_alt B Suc_leI)
  have e: "len + bsize - 1 = len + (bsize - 1)" by simp
  have s: "unat (bsize - 1) = unat bsize - 1"
    using 1 by (simp add: unat_sub)
  have "unat (len + (bsize - 1)) = unat len + unat (bsize - 1)"
    using assms(2) B s by (subst unat_add_lem [THEN iffD1]) simp_all
  then have "unat (len + bsize - 1) = unat len + unat bsize - 1"
    unfolding e s using B by linarith
  then have "unat ((len + bsize - 1) div bsize) = (unat len + unat bsize - 1) div unat bsize"
    by (simp only: unat_div)
  then show ?thesis by (simp only: ceil_div_nat [OF B])
qed

lemma unat_min_word: "unat (min a b) = min (unat a) (unat (b :: uint_t))"
  by (simp add: min_def word_le_nat_alt)

text \<open>
  Claim C8. With every operation on \<open>double\<close>s rounded to the nearest \<open>double\<close>,
  \<open>CalcPartitions\<close> yields the start \<open>\<lfloor>S\<rfloor>\<close> for the rounded product \<open>S\<close> of
  \<open>max fade_in_start 0\<close> and the sample rate, the length \<open>L - start\<close> when the rounded sum
  of \<open>fade_out_start\<close> and \<open>fade_out_length\<close> is zero and otherwise the smaller of \<open>\<lceil>R\<rceil>\<close>
  and \<open>L - start\<close>, for the rounded product \<open>R\<close> of the sample rate and the greater of 0
  and the rounded \<open>fade_out_start + fade_out_length - fade_in_start\<close>, and
  \<open>\<lceil>length / B\<rceil>\<close> partitions. The hypotheses: \<open>\<lfloor>S\<rfloor>\<close> and, where the code computes it,
  \<open>\<lceil>R\<rceil>\<close> fit \<open>uint_t\<close> (else a conversion is undefined), the start is at most \<open>L\<close>
  (else \<open>L - start\<close> wraps around), the block size is not zero and \<open>L + B\<close> does not exceed
  \<open>2 ^ 32\<close> (else the rounding \<open>length + B - 1\<close> wraps around).
\<close>

theorem CalcPartitions_result:
  fixes filterlen bsize :: uint_t
  assumes "0 \<le> round_double (max (fade_in_start fade) 0 * samplerate)"
    and "round_double (max (fade_in_start fade) 0 * samplerate) < 2 ^ 32"
    and "round_double (fade_out_start fade + fade_out_length fade) \<noteq> 0 \<Longrightarrow>
           - 1 < round_double
                   (max (round_double (round_double (fade_out_start fade + fade_out_length fade)
                                       - fade_in_start fade)) 0 * samplerate)
           \<and> round_double
                   (max (round_double (round_double (fade_out_start fade + fade_out_length fade)
                                       - fade_in_start fade)) 0 * samplerate) \<le> 2 ^ 32 - 1"
    and "\<lfloor>round_double (max (fade_in_start fade) 0 * samplerate)\<rfloor> \<le> int (unat filterlen)"
    and "bsize \<noteq> 0"
    and "unat filterlen + unat bsize \<le> 2 ^ 32"
  shows "\<exists>p s l. CalcPartitions fade samplerate filterlen bsize = Inr (p, s, l)
     \<and> int (unat s) = \<lfloor>round_double (max (fade_in_start fade) 0 * samplerate)\<rfloor>
     \<and> int (unat l) =
         (if round_double (fade_out_start fade + fade_out_length fade) = 0
          then int (unat filterlen) - int (unat s)
          else min \<lceil>round_double
                      (max (round_double (round_double (fade_out_start fade + fade_out_length fade)
                                          - fade_in_start fade)) 0 * samplerate)\<rceil>
                   (int (unat filterlen) - int (unat s)))
     \<and> int (unat p) = \<lceil>real (unat l) / real (unat bsize)\<rceil>"
proof -
  define z where "z \<longleftrightarrow> round_double (fade_out_start fade + fade_out_length fade) = 0"
  define zs where "zs = \<lfloor>round_double (max (fade_in_start fade) 0 * samplerate)\<rfloor>"
  define zl where
    "zl = \<lceil>round_double
            (max (round_double (round_double (fade_out_start fade + fade_out_length fade)
                                - fade_in_start fade)) 0 * samplerate)\<rceil>"
  define s :: uint_t where "s = word_of_int zs"
  define l :: uint_t where
    "l = (if z then filterlen - s else min (word_of_int zl) (filterlen - s))"
  have zs0: "0 \<le> zs" using assms(1) by (simp add: zs_def)
  have zs1: "zs < 2 ^ 32" using assms(2) by (simp add: zs_def floor_less_iff)
  have cs: "double_to_uint (of_int zs) = Inr s" and us: "unat s = nat zs"
    unfolding s_def by (rule double_to_uint_of_int [OF zs0 zs1])+
  have zl01: "0 \<le> zl \<and> zl < 2 ^ 32" if "\<not> z"
  proof -
    from that assms(3) have b: "- 1 < round_double
            (max (round_double (round_double (fade_out_start fade + fade_out_length fade)
                                - fade_in_start fade)) 0 * samplerate)"
      "round_double
            (max (round_double (round_double (fade_out_start fade + fade_out_length fade)
                                - fade_in_start fade)) 0 * samplerate) \<le> 2 ^ 32 - 1"
      by (simp_all add: z_def)
    have "- 1 < zl" unfolding zl_def using b(1) by (simp add: less_ceiling_iff)
    moreover have "zl \<le> 2 ^ 32 - 1" unfolding zl_def using b(2) by (simp add: ceiling_le_iff)
    ultimately show ?thesis by simp
  qed
  have cl: "double_to_uint (of_int zl) = Inr (word_of_int zl)"
    and ul: "unat (word_of_int zl :: uint_t) = nat zl" if "\<not> z"
    using double_to_uint_of_int [of zl] zl01 [OF that] by simp_all
  have sle: "unat s \<le> unat filterlen" using assms(4) [folded zs_def] zs0 us by linarith
  then have "s \<le> filterlen" by (simp add: word_le_nat_alt)
  then have ud: "unat (filterlen - s) = unat filterlen - unat s" by (rule unat_sub)
  have C: "CalcPartitions fade samplerate filterlen bsize
             = Inr ((l + bsize - 1) div bsize, s, l)"
    unfolding CalcPartitions_def zs_def [symmetric] zl_def [symmetric] z_def [symmetric]
    using assms(5) cs cl by (cases z) (simp_all add: l_def)
  have 1: "int (unat s) = zs" using zs0 by (simp add: us)
  have 2: "int (unat l) =
         (if z then int (unat filterlen) - int (unat s)
          else min zl (int (unat filterlen) - int (unat s)))"
  proof (cases z)
    case True
    then have "unat l = unat filterlen - unat s" by (simp add: l_def ud)
    with sle have e: "int (unat l) = int (unat filterlen) - int (unat s)" by linarith
    show ?thesis unfolding if_P [OF True] by (rule e)
  next
    case False
    then have "unat l = min (nat zl) (unat filterlen - unat s)"
      by (simp add: l_def unat_min_word ul ud)
    with sle zl01 [OF False] have e: "int (unat l) = min zl (int (unat filterlen) - int (unat s))"
      by linarith
    show ?thesis unfolding if_not_P [OF False] by (rule e)
  qed
  have "unat l \<le> unat filterlen"
  proof -
    have "int (unat l) \<le> int (unat filterlen) - int (unat s)"
      unfolding 2 by (cases z) (simp_all only: if_True if_False if_P if_not_P min.cobounded2 order_refl)
    then show ?thesis by linarith
  qed
  with assms(6) have "unat l + unat bsize \<le> 2 ^ 32" by simp
  from unat_ceil_div [OF assms(5) this]
  have 3: "int (unat ((l + bsize - 1) div bsize)) = \<lceil>real (unat l) / real (unat bsize)\<rceil>" .
  show ?thesis
    using C 1 2 3 unfolding zs_def zl_def z_def by blast
qed

lemma round_double_half: "round_double (1 / 2) = 1 / 2"
  using round_double_dyadic [of 1 "- 1"] by simp

lemma round_double_256: "round_double 256 = 256"
  using round_double_nat [of 256] by simp

lemma round_double_512: "round_double 512 = 512"
  using round_double_nat [of 512] by simp

theorem CalcPartitions_result_witness:
  "0 \<le> round_double (max (fade_in_start fade_half) 0 * 512)
   \<and> round_double (max (fade_in_start fade_half) 0 * 512) < 2 ^ 32
   \<and> - 1 < round_double
             (max (round_double (round_double (fade_out_start fade_half
                                               + fade_out_length fade_half)
                                 - fade_in_start fade_half)) 0 * 512)
   \<and> round_double
             (max (round_double (round_double (fade_out_start fade_half
                                               + fade_out_length fade_half)
                                 - fade_in_start fade_half)) 0 * 512) \<le> 2 ^ 32 - 1
   \<and> \<lfloor>round_double (max (fade_in_start fade_half) 0 * 512)\<rfloor> \<le> int (unat (1000 :: uint_t))
   \<and> (128 :: uint_t) \<noteq> 0
   \<and> unat (1000 :: uint_t) + unat (128 :: uint_t) \<le> 2 ^ 32
   \<and> map_sum id (\<lambda>r. (int (unat (fst r)), int (unat (fst (snd r))), int (unat (snd (snd r)))))
        (CalcPartitions fade_half 512 1000 128) = Inr (2, 256, 256)"
proof -
  have S: "round_double (max (fade_in_start fade_half) 0 * 512) = 256"
    by (simp add: fade_half_def round_double_256)
  have Z: "round_double (fade_out_start fade_half + fade_out_length fade_half) = 1"
    by (simp add: fade_half_def)
  have R: "round_double
             (max (round_double (round_double (fade_out_start fade_half
                                               + fade_out_length fade_half)
                                 - fade_in_start fade_half)) 0 * 512) = 256"
    unfolding Z by (simp add: fade_half_def round_double_half round_double_256)
  have h: "0 \<le> round_double (max (fade_in_start fade_half) 0 * 512)"
    "round_double (max (fade_in_start fade_half) 0 * 512) < 2 ^ 32"
    "round_double (fade_out_start fade_half + fade_out_length fade_half) \<noteq> 0 \<Longrightarrow>
       - 1 < round_double
             (max (round_double (round_double (fade_out_start fade_half
                                               + fade_out_length fade_half)
                                 - fade_in_start fade_half)) 0 * 512)
       \<and> round_double
             (max (round_double (round_double (fade_out_start fade_half
                                               + fade_out_length fade_half)
                                 - fade_in_start fade_half)) 0 * 512) \<le> 2 ^ 32 - 1"
    "\<lfloor>round_double (max (fade_in_start fade_half) 0 * 512)\<rfloor> \<le> int (unat (1000 :: uint_t))"
    "(128 :: uint_t) \<noteq> 0"
    "unat (1000 :: uint_t) + unat (128 :: uint_t) \<le> 2 ^ 32"
    unfolding S R by simp_all
  from CalcPartitions_result [OF h] obtain p s l where
    r: "CalcPartitions fade_half 512 1000 128 = Inr (p, s, l)"
      "int (unat s) = \<lfloor>round_double (max (fade_in_start fade_half) 0 * 512)\<rfloor>"
      "int (unat l) =
         (if round_double (fade_out_start fade_half + fade_out_length fade_half) = 0
          then int (unat (1000 :: uint_t)) - int (unat s)
          else min \<lceil>round_double
             (max (round_double (round_double (fade_out_start fade_half
                                               + fade_out_length fade_half)
                                 - fade_in_start fade_half)) 0 * 512)\<rceil>
                   (int (unat (1000 :: uint_t)) - int (unat s)))"
      "int (unat p) = \<lceil>real (unat l) / real (unat (128 :: uint_t))\<rceil>"
    by blast
  have s: "int (unat s) = 256" unfolding r(2) S by simp
  have l: "int (unat l) = 256" unfolding r(3) s by (simp only: R) (simp add: Z)
  from l have "unat l = 256" by linarith
  then have p: "int (unat p) = 2" unfolding r(4) by simp
  have "map_sum id (\<lambda>r. (int (unat (fst r)), int (unat (fst (snd r))), int (unat (snd (snd r)))))
        (CalcPartitions fade_half 512 1000 128) = Inr (2, 256, 256)"
    unfolding r(1) using s l p by simp
  then show ?thesis unfolding S R by simp
qed

text \<open>
  Not so in two cases. An impulse response of 256 samples with a fade that starts a
  second into it, at 512 samples a second and a block size of 512: the start is 512, the
  length wraps around to \<open>2 ^ 32 - 256\<close>, which is not \<open>256 - 512\<close>, and the partition
  count is 0, which is not the length divided by the block size and rounded up. And a
  fade out of a tenth of a second (the \<open>double\<close> nearest to 0.1, which is greater than
  0.1) at 48000 samples a second, for a response of 10000 samples and a block size of
  64: the product is a little more than 4800 and rounds to the \<open>double\<close> 4800, so the
  length is 4800 and the partition count 75, where the claim's \<open>\<lceil> \<rceil>\<close> of the product
  gives 4801 and 76.
\<close>

theorem CalcPartitions_start_past_end:
  "CalcPartitions fade_late 512 256 512 = Inr (0, 512, 4294967040)
   \<and> int (unat (4294967040 :: uint_t)) \<noteq> int (unat (256 :: uint_t)) - int (unat (512 :: uint_t))
   \<and> int (unat (0 :: uint_t))
       \<noteq> \<lceil>real (unat (4294967040 :: uint_t)) / real (unat (512 :: uint_t))\<rceil>
   \<and> CalcPartitions fade_tenth 48000 10000 64 = Inr (75, 0, 4800)
   \<and> \<lceil>max (fade_out_start fade_tenth + fade_out_length fade_tenth - fade_in_start fade_tenth) 0
        * (48000 :: real)\<rceil> = 4801
   \<and> \<lceil>(4801 :: real) / 64\<rceil> = 76"
proof -
  have "CalcPartitions fade_late 512 256 512 = Inr (0, 512, 4294967040)"
    by (simp add: CalcPartitions_def fade_late_def double_to_uint_def round_double_512)
  moreover have "\<lceil>(4294967040 :: real) / 512\<rceil> = 8388608"
    by (simp add: ceiling_eq_iff)
  moreover have "CalcPartitions fade_tenth 48000 10000 64 = Inr (75, 0, 4800)"
  proof -
    have t: "round_double (3602879701896397 / 36028797018963968)
             = 3602879701896397 / 36028797018963968"
      using round_double_dyadic [of 3602879701896397 "- 55"] by simp
    have "round_double (1351079888211148875 / 281474976710656)
          = of_int 5277655813324800 * 2 powi (- 40)"
      by (rule round_double_eq) (simp_all add: round_even_def Let_def)
    then have m: "round_double (1351079888211148875 / 281474976710656) = 4800"
      by simp
    show ?thesis
      by (simp add: CalcPartitions_def fade_tenth_def double_to_uint_def t m)
  qed
  moreover have "\<lceil>max (fade_out_start fade_tenth + fade_out_length fade_tenth
                       - fade_in_start fade_tenth) 0 * (48000 :: real)\<rceil> = 4801"
    by (simp add: fade_tenth_def ceiling_eq_iff)
  moreover have "\<lceil>(4801 :: real) / 64\<rceil> = 76"
    by (simp add: ceiling_eq_iff)
  ultimately show ?thesis by simp
qed

section \<open>One block of a worker's thread\<close>

lemma write_block_nth:
  assumes "write_block mem pos n f = Inr mem'"
  shows "length mem' = length mem"
    and "k < length mem \<Longrightarrow>
         mem' ! k = (if pos \<le> k \<and> k < pos + n then f (k - pos) else mem ! k)"
proof -
  from assms have le: "pos + n \<le> length mem"
    and m: "mem' = take pos mem @ map f [0..<n] @ drop (pos + n) mem"
    by (auto simp: write_block_def split: if_splits)
  show "length mem' = length mem" using le by (simp add: m)
  show "mem' ! k = (if pos \<le> k \<and> k < pos + n then f (k - pos) else mem ! k)"
    if "k < length mem"
  proof -
    consider "k < pos" | "pos \<le> k" "k < pos + n" | "pos + n \<le> k" by linarith
    then show ?thesis
    proof cases
      case 1
      then show ?thesis using le by (simp add: m nth_append)
    next
      case 2
      then have "k - pos < n" by linarith
      with 2 show ?thesis using le by (simp add: m nth_append)
    next
      case 3
      have a: "\<not> k < pos" "\<not> k - pos < n" using 3 by linarith+
      have b: "pos + n + (k - pos - n) = k" using 3 by linarith
      have "mem' ! k = drop (pos + n) mem ! (k - pos - n)"
        using le a by (simp add: m nth_append)
      also have "\<dots> = mem ! (pos + n + (k - pos - n))"
        using le by (intro nth_drop)
      finally show ?thesis using a b by simp
    qed
  qed
qed

lemma Process_fill_Inr:
  assumes "unat (delaypos l) + unat (blocksize c) \<le> length (delaymem l)"
  shows "\<exists>c1 mem. Process_fill env c l = Inr (c1, mem)
     \<and> (c1 = c \<or> c1 = fst (Convolver_Convolve env c))
     \<and> write_block (delaymem l) (unat (delaypos l)) (unat (blocksize c))
         (if zeroblocks c < partitions c then snd (Convolver_Convolve env c) else (\<lambda>k. 0))
        = Inr mem"
  using assms by (simp add: Process_fill_def write_block_def Let_def)

lemma double_to_uint_cast:
  assumes "- 1 < x" and "x < 2 ^ 32"
  shows "\<exists>u. double_to_uint x = Inr u \<and> unat u = nat \<lfloor>x\<rfloor>"
proof (cases "0 \<le> x")
  case True
  have "0 \<le> \<lfloor>x\<rfloor>" using True by simp
  moreover have "\<lfloor>x\<rfloor> < 2 ^ 32" using assms(2) by (simp add: floor_less_iff)
  ultimately have "unat (word_of_int \<lfloor>x\<rfloor> :: uint_t) = nat \<lfloor>x\<rfloor>"
    by (rule double_to_uint_of_int(2))
  then show ?thesis using True assms by (simp add: double_to_uint_def)
next
  case False
  then have "\<lceil>x\<rceil> = 0" using assms(1) by (intro ceiling_unique) simp_all
  moreover have "\<lfloor>x\<rfloor> < 0" using False by (simp add: floor_less_iff)
  ultimately show ?thesis using False assms by (simp add: double_to_uint_def)
qed

lemma interpolate_0: "interpolate bsize x1 x2 0 = round_double (round_double x1)"
  by (simp add: interpolate_def Let_def)

text \<open>
  Between two positions that are not negative and at most \<open>M\<close>, every interpolated
  position is at least 0 and at most \<open>2 * M\<close>: the rounded weights \<open>a\<close> and \<open>b\<close> are in
  the unit interval, but their sum can exceed 1.
\<close>

lemma interpolate_range:
  assumes "i < unat bsize" and "0 \<le> x1" and "x1 \<le> real M" and "0 \<le> x2" and "x2 \<le> real M"
    and "2 * M < 2 ^ 53"
  shows "0 \<le> interpolate bsize x1 x2 i" and "interpolate bsize x1 x2 i \<le> real (2 * M)"
proof -
  define b where "b = round_double (real i / real (unat bsize))"
  define a where "a = round_double (1 - b)"
  define n where "n = unat bsize"
  have M: "M < 2 ^ 53" using assms(6) by simp
  have "real i < real n" using assms(1) unfolding n_def by (simp only: of_nat_less_iff)
  then have "0 \<le> real i / real n" "real i / real n \<le> real 1" by simp_all
  then have q: "0 \<le> real i / real (unat bsize)" "real i / real (unat bsize) \<le> real 1"
    unfolding n_def .
  have b0: "0 \<le> b" unfolding b_def by (rule round_double_nonneg [OF q(1)])
  have "b \<le> real 1" unfolding b_def by (rule round_double_le_nat [OF q]) simp
  then have b1: "b \<le> 1" by simp
  have a0: "0 \<le> a" unfolding a_def using b1 by (intro round_double_nonneg) simp
  have "a \<le> real 1" unfolding a_def using b0 b1 by (intro round_double_le_nat) simp_all
  then have a1: "a \<le> 1" by simp
  have p1: "0 \<le> a * x1" "a * x1 \<le> real M"
    using a0 a1 assms(2,3) mult_mono [of a 1 x1 "real M"] by simp_all
  have p2: "0 \<le> b * x2" "b * x2 \<le> real M"
    using b0 b1 assms(4,5) mult_mono [of b 1 x2 "real M"] by simp_all
  have r1: "0 \<le> round_double (a * x1)" "round_double (a * x1) \<le> real M"
    by (rule round_double_nonneg [OF p1(1)], rule round_double_le_nat [OF p1 M])
  have r2: "0 \<le> round_double (b * x2)" "round_double (b * x2) \<le> real M"
    by (rule round_double_nonneg [OF p2(1)], rule round_double_le_nat [OF p2 M])
  have s: "0 \<le> round_double (a * x1) + round_double (b * x2)"
    "round_double (a * x1) + round_double (b * x2) \<le> real (2 * M)"
    using r1 r2 by simp_all
  show "0 \<le> interpolate bsize x1 x2 i"
    unfolding interpolate_def Let_def b_def [symmetric] a_def [symmetric]
    by (rule round_double_nonneg [OF s(1)])
  show "interpolate bsize x1 x2 i \<le> real (2 * M)"
    unfolding interpolate_def Let_def b_def [symmetric] a_def [symmetric]
    by (rule round_double_le_nat [OF s assms(6)])
qed

lemma interpolate_cast:
  assumes "0 \<le> x1" and "x1 \<le> real M" and "0 \<le> x2" and "x2 \<le> real M" and "2 * M < 2 ^ 32"
  shows "list_all (\<lambda>n. - 1 < interpolate bsize x1 x2 n \<and> interpolate bsize x1 x2 n < 2 ^ 32)
           [0..<unat bsize]"
proof -
  have M: "2 * M < 2 ^ 53" using assms(5) by simp
  have "- 1 < interpolate bsize x1 x2 n \<and> interpolate bsize x1 x2 n < 2 ^ 32"
    if "n < unat bsize" for n
  proof -
    note r = interpolate_range [OF that assms(1-4) M]
    have "real (2 * M) < real (2 ^ 32)" using assms(5) by (simp only: of_nat_less_iff)
    then have "real (2 * M) < 2 ^ 32" by simp
    with r show ?thesis by linarith
  qed
  then show ?thesis by (simp add: list_all_iff)
qed

lemma output_sample_low_quality:
  assumes "- 1 < interpolate bsize fpos1 fpos2 i" and "interpolate bsize fpos1 fpos2 i < 2 ^ 32"
    and "0 < unat (delaylen l)" and "length mem = unat (delaylen l)"
  shows "output_sample env False l mem bsize fpos1 fpos2 level2 i =
     Inr (round_float (round_double (interpolate bsize (level1 l) level2 i
          * mem ! (nat \<lfloor>interpolate bsize fpos1 fpos2 i\<rfloor> mod unat (delaylen l)))))"
proof -
  define fpos where "fpos = interpolate bsize fpos1 fpos2 i"
  from double_to_uint_cast [OF assms(1,2)] obtain u where
    u: "double_to_uint fpos = Inr u" "unat u = nat \<lfloor>fpos\<rfloor>"
    unfolding fpos_def by blast
  have nz: "delaylen l \<noteq> 0" using assms(3) by (simp add: unat_gt_0)
  have m: "unat (u mod delaylen l) = nat \<lfloor>fpos\<rfloor> mod unat (delaylen l)"
    by (simp only: unat_mod u(2))
  have lt: "nat \<lfloor>fpos\<rfloor> mod unat (delaylen l) < length mem"
    using assms(3,4) by simp
  show ?thesis
    unfolding output_sample_def Let_def fpos_def [symmetric] u(1) bindF_Inr m
    using nz lt by simp
qed

lemma output_sample_high_quality:
  "output_sample env True l mem bsize fpos1 fpos2 level2 i =
     Inr (round_float (round_double (interpolate bsize (level1 l) level2 i
          * FractionalSample env mem 0 1 (delaylen l) (interpolate bsize fpos1 fpos2 i))))"
  by (simp add: output_sample_def Let_def)

lemma frame_ok_pos:
  assumes "frame_ok env bsize l"
  shows "unat (delaypos l) + unat bsize \<le> unat (delaylen l)"
proof -
  from assms have d: "unat bsize dvd unat (delaylen l)" "unat bsize dvd unat (delaypos l)"
    and lt: "unat (delaypos l) < unat (delaylen l)" and B: "0 < unat bsize"
    by (simp_all add: frame_ok_def)
  from d obtain q p where q: "unat (delaylen l) = unat bsize * q"
    and p: "unat (delaypos l) = unat bsize * p" by (auto simp: dvd_def)
  from lt B have "p < q" unfolding q p by simp
  then have "Suc p \<le> q" by simp
  then have "unat bsize * Suc p \<le> unat bsize * q" by (rule mult_le_mono2)
  then show ?thesis unfolding q p by simp
qed

lemma Process_block_Inr:
  assumes "frame_ok env (blocksize c) l"
    and "\<not> hqproc c \<Longrightarrow>
         list_all (\<lambda>n. - 1 < interpolate (blocksize c)
                (round_double (real (unat (delaypos l)) + real (unat (delaylen l)) - delay1 l))
                (round_double (real (unat (delaypos l)) + real (unat (blocksize c))
                   + real (unat (delaylen l))
                   - min (outputdelay c) (real (unat (maxdelay l))))) n
            \<and> interpolate (blocksize c)
                (round_double (real (unat (delaypos l)) + real (unat (delaylen l)) - delay1 l))
                (round_double (real (unat (delaypos l)) + real (unat (blocksize c))
                   + real (unat (delaylen l))
                   - min (outputdelay c) (real (unat (maxdelay l))))) n < 2 ^ 32)
           [0..<unat (blocksize c)]"
  shows "\<exists>c' l'. Process_block env c l = Inr (c', l') \<and>
    (let B = unat (blocksize c);
         D = unat (delaylen l);
         cur_delay = min (outputdelay c)
           (real D - real B - 1 - real (unat (FractionalSampleAdditionalDelayRequired env)));
         pos1 = round_double (real (unat (delaypos l)) + real D - delay1 l);
         pos2 = round_double ((real (unat (delaypos l)) + real B) + real D - cur_delay)
     in length (output_buf c') = B
      \<and> (\<not> hqproc c \<longrightarrow> (\<forall>n<B. output_buf c' ! n =
            round_float (round_double
              (interpolate (blocksize c) (level1 l) (outputlevel c) n
               * delaymem l' ! (nat \<lfloor>interpolate (blocksize c) pos1 pos2 n\<rfloor> mod D)))))
      \<and> (hqproc c \<longrightarrow> (\<forall>n<B. output_buf c' ! n =
            round_float (round_double
              (interpolate (blocksize c) (level1 l) (outputlevel c) n
               * FractionalSample env (delaymem l') 0 1 (delaylen l)
                   (interpolate (blocksize c) pos1 pos2 n)))))
      \<and> length (delaymem l') = D
      \<and> (\<forall>k<D. delaymem l' ! k =
            (if unat (delaypos l) \<le> k \<and> k < unat (delaypos l) + B
             then (if zeroblocks c < partitions c
                   then snd (Convolver_Convolve env c) (k - unat (delaypos l)) else 0)
             else delaymem l ! k))
      \<and> unat (delaypos l') = (unat (delaypos l) + B) mod D
      \<and> delay1 l' = cur_delay
      \<and> level1 l' = outputlevel c
      \<and> delaylen l' = delaylen l \<and> maxdelay l' = maxdelay l
      \<and> blocksize c' = blocksize c
      \<and> frame_ok env (blocksize c') l')"
proof -
  define B where "B = unat (blocksize c)"
  define D where "D = unat (delaylen l)"
  define P where "P = unat (delaypos l)"
  define cur_delay where "cur_delay = min (outputdelay c) (real (unat (maxdelay l)))"
  define pos1 where "pos1 = round_double (real P + real D - delay1 l)"
  define pos2 where "pos2 = round_double ((real P + real B) + real D - cur_delay)"
  define f where "f = (if zeroblocks c < partitions c then snd (Convolver_Convolve env c)
                       else (\<lambda>k. 0))"
  note ok = assms(1) [unfolded frame_ok_def, folded B_def D_def P_def]
  have B0: "0 < B" and len: "length (delaymem l) = D" and PD: "P < D"
    and D2: "2 * D < 2 ^ 32" and d1: "delay1 l \<le> real (unat (maxdelay l))"
    and md: "unat (maxdelay l) + unat (FractionalSampleAdditionalDelayRequired env) + B + 1 = D"
    and dv: "B dvd D" "B dvd P"
    using ok by simp_all
  have PB: "P + B \<le> D" using frame_ok_pos [OF assms(1)] by (simp add: P_def B_def D_def)
  have D0: "0 < D" using PD by simp
  have mdr: "real (unat (maxdelay l))
      = real D - real B - 1 - real (unat (FractionalSampleAdditionalDelayRequired env))"
    using md by linarith
  \<comment> \<open>the block is written\<close>
  from Process_fill_Inr [of l c env] PB len obtain c1 mem where
    fill: "Process_fill env c l = Inr (c1, mem)"
    and c1: "c1 = c \<or> c1 = fst (Convolver_Convolve env c)"
    and wb: "write_block (delaymem l) P B f = Inr mem"
    by (auto simp: P_def B_def f_def)
  have c1f: "blocksize c1 = blocksize c" "outputlevel c1 = outputlevel c"
    "outputdelay c1 = outputdelay c" "hqproc c1 = hqproc c"
    using c1 by (auto simp: Convolver_Convolve_fields)
  note wn = write_block_nth [OF wb]
  have lmem: "length mem = D" using wn(1) len by simp
  \<comment> \<open>the two positions, without wrap-around\<close>
  have u1: "unat (delaypos l + delaylen l) = P + D"
  proof -
    have "unat (delaypos l) + unat (delaylen l) < 2 ^ LENGTH(32)"
      using PD D2 by (simp add: P_def D_def)
    then show ?thesis by (simp only: unat_add_lem [THEN iffD1] P_def D_def)
  qed
  have u2: "unat (delaypos l + delaylen l + blocksize c) = P + D + B"
  proof -
    have "unat (delaypos l + delaylen l) + unat (blocksize c) < 2 ^ LENGTH(32)"
      using PB D2 by (simp add: u1 B_def)
    then show ?thesis by (simp only: unat_add_lem [THEN iffD1] u1 B_def)
  qed
  have u3: "unat (delaypos l + blocksize c) = P + B"
  proof -
    have "unat (delaypos l) + unat (blocksize c) < 2 ^ LENGTH(32)"
      using PB D2 by (simp add: P_def B_def)
    then show ?thesis by (simp only: unat_add_lem [THEN iffD1] P_def B_def)
  qed
  have f1: "round_double (real (unat (delaypos l + delaylen l)) - delay1 l) = pos1"
    by (simp add: u1 pos1_def)
  have f2: "round_double (real (unat (delaypos l + delaylen l + blocksize c1)) - cur_delay) = pos2"
  proof -
    have "real (unat (delaypos l + delaylen l + blocksize c1)) - cur_delay
          = (real P + real B) + real D - cur_delay"
      by (simp add: u2 c1f)
    then show ?thesis by (simp only: pos2_def)
  qed
  have cast: "- 1 < interpolate (blocksize c) pos1 pos2 n
              \<and> interpolate (blocksize c) pos1 pos2 n < 2 ^ 32"
    if "\<not> hqproc c" "n < B" for n
  proof -
    have "n \<in> set [0..<unat (blocksize c)]" using that(2) by (simp add: B_def)
    with assms(2) [OF that(1)] show ?thesis
      unfolding pos1_def pos2_def cur_delay_def P_def D_def B_def list_all_iff
      by (rule bspec)
  qed
  \<comment> \<open>the output loop\<close>
  define g where "g = (\<lambda>n. round_float (round_double
      (interpolate (blocksize c) (level1 l) (outputlevel c) n
      * (if hqproc c
         then FractionalSample env mem 0 1 (delaylen l) (interpolate (blocksize c) pos1 pos2 n)
         else mem ! (nat \<lfloor>interpolate (blocksize c) pos1 pos2 n\<rfloor> mod D)))))"
  have tr: "traverse (output_sample env (hqproc c1) l mem (blocksize c1) pos1 pos2 (outputlevel c1))
              [0..<unat (blocksize c1)] = Inr (map g [0..<B])"
  proof -
    have "output_sample env (hqproc c) l mem (blocksize c) pos1 pos2 (outputlevel c) n = Inr (g n)"
      if "n < B" for n
    proof (cases "hqproc c")
      case True
      then show ?thesis
        by (simp only: output_sample_high_quality g_def if_True)
    next
      case False
      from cast [OF False that] have
        "output_sample env False l mem (blocksize c) pos1 pos2 (outputlevel c) n
        = Inr (round_float (round_double (interpolate (blocksize c) (level1 l) (outputlevel c) n
          * mem ! (nat \<lfloor>interpolate (blocksize c) pos1 pos2 n\<rfloor> mod unat (delaylen l)))))"
        by (intro output_sample_low_quality) (use D0 lmem in \<open>simp_all add: D_def\<close>)
      with False show ?thesis
        by (simp only: g_def D_def if_False)
    qed
    then show ?thesis
      unfolding c1f B_def [symmetric] by (intro traverse_Inr) simp
  qed
  have nz: "delaylen l \<noteq> 0" using D0 by (simp add: D_def unat_gt_0)
  define c' where "c' = c1\<lparr>output_buf := map g [0..<B]\<rparr>"
  define l' where "l' = l\<lparr>delaypos := (delaypos l + blocksize c1) mod delaylen l,
                    delaymem := mem, delay1 := cur_delay, level1 := outputlevel c1\<rparr>"
  have cur1: "min (outputdelay c1) (real (unat (maxdelay l))) = cur_delay"
    by (simp only: c1f cur_delay_def)
  have pb: "Process_block env c l = Inr (c', l')"
    unfolding Process_block_def fill bindF_Inr prod.case Let_def
      cur1 f1 f2 tr c'_def l'_def
    using nz by simp
  have np: "unat (delaypos l') = (P + B) mod D"
    by (simp add: l'_def c1f unat_mod u3 D_def)
  have out: "length (output_buf c') = B" "\<And>n. n < B \<Longrightarrow> output_buf c' ! n = g n"
    by (simp_all add: c'_def)
  have fo: "frame_ok env (blocksize c') l'"
  proof -
    have "B dvd (P + B) mod D" using dv by (simp add: dvd_mod)
    moreover have "(P + B) mod D < D" using D0 by simp
    moreover have "cur_delay \<le> real (unat (maxdelay l))" by (simp add: cur_delay_def)
    ultimately show ?thesis
      using B0 lmem dv D2 md
      by (simp add: frame_ok_def c'_def c1f l'_def unat_mod u3 B_def [symmetric] D_def [symmetric])
  qed
  have cd: "cur_delay = min (outputdelay c)
           (real D - real B - 1 - real (unat (FractionalSampleAdditionalDelayRequired env)))"
    by (simp only: cur_delay_def mdr)
  have mem': "delaymem l' = mem" "delay1 l' = cur_delay" "level1 l' = outputlevel c"
    "delaylen l' = delaylen l" "maxdelay l' = maxdelay l" "blocksize c' = blocksize c"
    by (simp_all add: l'_def c'_def c1f)
  have memk: "\<forall>k<D. mem ! k =
            (if P \<le> k \<and> k < P + B
             then (if zeroblocks c < partitions c
                   then snd (Convolver_Convolve env c) (k - P) else 0)
             else delaymem l ! k)"
    using wn(2) len by (simp add: f_def)
  show ?thesis
    unfolding Let_def B_def [symmetric] D_def [symmetric] P_def [symmetric]
      cd [symmetric] pos1_def [symmetric] pos2_def [symmetric]
    using pb out np fo mem' memk lmem
    by (intro exI [of _ c'] exI [of _ l']) (simp add: g_def)
qed

lemma example_frame_ok: "frame_ok example_extern 2 example_locals"
  by (simp add: frame_ok_def example_extern_def example_locals_def)

lemma example_Convolve_busy:
  "snd (Convolver_Convolve example_extern example_worker_busy) k
     = (if k < 2 then [3, 4] ! k else 0)"
  "snd (Convolver_Convolve example_extern (example_worker_busy\<lparr>startsignal := False\<rparr>)) k
     = (if k < 2 then [3, 4] ! k else 0)"
  by (simp_all add: Convolver_Convolve_def example_worker_busy_def example_worker_def
      example_extern_def Let_def)

lemma list2_eq:
  assumes "length xs = 2" and "xs ! 0 = a" and "xs ! 1 = b"
  shows "xs = [a, b]"
proof -
  from assms(1) obtain x y where "xs = [x, y]"
    by (cases xs; cases "tl xs"; cases "tl (tl xs)") auto
  with assms(2,3) show ?thesis by simp
qed

lemma example_rounding:
  "round_double 2402 = 2402" "round_double 2403 = 2403" "round_double 1201 = 1201"
  "round_double (2403 / 2) = 2403 / 2" "round_double (4805 / 2) = 4805 / 2"
  "round_double 3 = 3" "round_double (1 / 2) = 1 / 2" "round_double (1 / 4) = 1 / 4"
  "round_double (3 / 4) = 3 / 4" "round_double (9 / 4) = 9 / 4"
  "round_float 3 = 3" "round_float (9 / 4) = 9 / 4"
  using round_double_nat [of 2402] round_double_nat [of 2403] round_double_nat [of 1201]
    round_double_dyadic [of 2403 "- 1"] round_double_dyadic [of 4805 "- 1"]
    round_double_nat [of 3] round_double_dyadic [of 1 "- 1"] round_double_dyadic [of 1 "- 2"]
    round_double_dyadic [of 3 "- 2"] round_double_dyadic [of 9 "- 2"]
    round_float_dyadic [of 3 0] round_float_dyadic [of 9 "- 2"]
  by simp_all

lemma example_interpolate:
  "interpolate 2 2402 2403 0 = 2402" "interpolate 2 2402 2403 (Suc 0) = 4805 / 2"
  "interpolate 2 1 (1 / 2) 0 = 1" "interpolate 2 1 (1 / 2) (Suc 0) = 3 / 4"
  by (simp_all add: interpolate_def Let_def example_rounding)

lemma example_positions:
  "round_double (real (unat (delaypos example_locals)) + real (unat (delaylen example_locals))
     - delay1 example_locals) = 2402"
  "round_double (real (unat (delaypos example_locals))
     + real (unat (blocksize (example_worker_busy\<lparr>startsignal := False\<rparr>)))
     + real (unat (delaylen example_locals))
     - min (outputdelay (example_worker_busy\<lparr>startsignal := False\<rparr>))
         (real (unat (maxdelay example_locals)))) = 2403"
  "round_double (real (unat (delaypos example_locals))
     + real (unat (blocksize example_worker_busy))
     + real (unat (delaylen example_locals))
     - min (outputdelay example_worker_busy)
         (real (unat (maxdelay example_locals)))) = 2403"
  by (simp_all add: example_locals_def example_worker_busy_def example_worker_def
      example_rounding)

lemma example_Process_block:
  "\<exists>c' l'. Process_block example_extern (example_worker_busy\<lparr>startsignal := False\<rparr>)
       example_locals = Inr (c', l')
     \<and> output_buf c' = [3, 9 / 4] \<and> unat (delaypos l') = 2
     \<and> delay1 l' = 1 \<and> level1 l' = 1 / 2"
proof -
  let ?w = "example_worker_busy\<lparr>startsignal := False\<rparr>"
  let ?l = example_locals and ?e = example_extern
  have b: "blocksize ?w = 2"
    by (simp add: example_worker_busy_def example_worker_def)
  have h1: "frame_ok ?e (blocksize ?w) ?l"
    unfolding b using example_frame_ok by simp
  have h2: "list_all (\<lambda>n. - 1 < interpolate (blocksize ?w)
                (round_double (real (unat (delaypos ?l)) + real (unat (delaylen ?l)) - delay1 ?l))
                (round_double (real (unat (delaypos ?l)) + real (unat (blocksize ?w))
                   + real (unat (delaylen ?l))
                   - min (outputdelay ?w) (real (unat (maxdelay ?l))))) n
            \<and> interpolate (blocksize ?w)
                (round_double (real (unat (delaypos ?l)) + real (unat (delaylen ?l)) - delay1 ?l))
                (round_double (real (unat (delaypos ?l)) + real (unat (blocksize ?w))
                   + real (unat (delaylen ?l))
                   - min (outputdelay ?w) (real (unat (maxdelay ?l))))) n < 2 ^ 32)
           [0..<unat (blocksize ?w)]"
    unfolding example_positions by (rule interpolate_cast [where M = 2403]) simp_all
  from Process_block_Inr [OF h1 h2, unfolded Let_def] obtain c' l' where
    r: "Process_block ?e ?w ?l = Inr (c', l')"
    and len: "length (output_buf c') = unat (blocksize ?w)"
    and o: "\<not> hqproc ?w \<longrightarrow> (\<forall>n<unat (blocksize ?w). output_buf c' ! n =
            round_float (round_double
              (interpolate (blocksize ?w) (level1 ?l) (outputlevel ?w) n
               * delaymem l' ! (nat \<lfloor>interpolate (blocksize ?w)
                   (round_double (real (unat (delaypos ?l)) + real (unat (delaylen ?l))
                      - delay1 ?l))
                   (round_double ((real (unat (delaypos ?l)) + real (unat (blocksize ?w)))
                      + real (unat (delaylen ?l))
                      - min (outputdelay ?w)
                          (real (unat (delaylen ?l)) - real (unat (blocksize ?w)) - 1
                           - real (unat (FractionalSampleAdditionalDelayRequired ?e))))) n\<rfloor>
                 mod unat (delaylen ?l)))))"
    and mk: "\<forall>k<unat (delaylen ?l). delaymem l' ! k =
            (if unat (delaypos ?l) \<le> k \<and> k < unat (delaypos ?l) + unat (blocksize ?w)
             then (if zeroblocks ?w < partitions ?w
                   then snd (Convolver_Convolve ?e ?w) (k - unat (delaypos ?l)) else 0)
             else delaymem ?l ! k)"
    and np: "unat (delaypos l') = (unat (delaypos ?l) + unat (blocksize ?w)) mod unat (delaylen ?l)"
    and d1: "delay1 l' = min (outputdelay ?w)
                          (real (unat (delaylen ?l)) - real (unat (blocksize ?w)) - 1
                           - real (unat (FractionalSampleAdditionalDelayRequired ?e)))"
    and l1: "level1 l' = outputlevel ?w"
    by blast
  have v: "unat (delaylen ?l) = 2402" "unat (delaypos ?l) = 0" "delay1 ?l = 0"
    "level1 ?l = 1" "outputdelay example_worker_busy = 1"
    "outputlevel example_worker_busy = 1 / 2" "hqproc example_worker_busy = False"
    "zeroblocks example_worker_busy = 0" "partitions example_worker_busy = 1"
    "blocksize example_worker_busy = 2"
    "unat (FractionalSampleAdditionalDelayRequired ?e) = 5"
    by (simp_all add: example_worker_busy_def example_worker_def example_locals_def
        example_extern_def)
  from mk have m0: "delaymem l' ! 0 = 3"
    by (simp add: v b example_Convolve_busy)
  have o0: "output_buf c' ! 0 = 3"
    using o [rule_format, of 0] m0
    by (simp add: v b example_rounding example_interpolate)
  have o1: "output_buf c' ! 1 = 9 / 4"
    using o [rule_format, of 1] m0
    by (simp add: v b example_rounding example_interpolate)
  have "length (output_buf c') = 2" using len by (simp add: b)
  then have ob: "output_buf c' = [3, 9 / 4]" using o0 o1 by (rule list2_eq)
  from np d1 l1 have "unat (delaypos l') = 2" "delay1 l' = 1" "level1 l' = 1 / 2"
    by (simp_all add: v b)
  with r ob show ?thesis by blast
qed

lemma ceil_blocks_ge:
  assumes "0 < (B::nat)"
  shows "2400 \<le> (2400 + B - 1) div B * B"
proof -
  have "(2400 + B - 1) div B * B + (2400 + B - 1) mod B = 2400 + B - 1"
    by (rule div_mult_mod_eq)
  moreover have "(2400 + B - 1) mod B < B" using assms by simp
  ultimately show ?thesis by linarith
qed

lemma Process_init_frame_ok:
  fixes bsize :: uint_t
  assumes "bsize \<noteq> 0" and "2400 + 2 * unat bsize \<le> 2 ^ 31"
    and "unat (FractionalSampleAdditionalDelayRequired env) \<le> 2399"
    and "Process_init env bsize = Inr l"
  shows "frame_ok env bsize l"
proof -
  define B where "B = unat bsize"
  define q where "q = (2400 + B - 1) div B"
  define F where "F = unat (FractionalSampleAdditionalDelayRequired env)"
  have B: "0 < B" using assms(1) by (simp add: unat_gt_0 B_def)
  have B2: "2400 + 2 * B \<le> 2147483648" using assms(2) by (simp add: B_def)
  then have B3: "2400 + 2 * unat bsize \<le> 2 ^ 32" by (simp add: B_def)
  from Process_init_Inr [OF assms(1), of env] assms(4) have
    l: "delaylen l = (1 + ((2400 + bsize - 1) div bsize)) * bsize"
       "maxdelay l = delaylen l - bsize - 1 - FractionalSampleAdditionalDelayRequired env"
       "delaypos l = 0" "delaymem l = replicate (unat (delaylen l)) 0" "delay1 l = 0"
    by auto
  have D: "unat (delaylen l) = (1 + q) * B"
    unfolding l(1) q_def B_def by (rule delaylen_unat [OF assms(1) B3])
  have qB: "2400 \<le> q * B" unfolding q_def by (rule ceil_blocks_ge [OF B])
  have qle: "q * B \<le> 2400 + B - 1"
    unfolding q_def by (rule div_times_less_eq_dividend)
  have DB: "(1 + q) * B = q * B + B" by (simp add: algebra_simps)
  have len: "length (delaymem l) = unat (delaylen l)" by (subst l(4)) simp
  have s1: "unat (delaylen l - bsize) = q * B"
  proof -
    have "bsize \<le> delaylen l" using D DB by (simp add: word_le_nat_alt B_def)
    then have "unat (delaylen l - bsize) = unat (delaylen l) - unat bsize" by (rule unat_sub)
    then show ?thesis using D DB by (simp add: B_def)
  qed
  have s2: "unat (delaylen l - bsize - 1) = q * B - 1"
  proof -
    have "unat (1 :: uint_t) \<le> unat (delaylen l - bsize)"
      unfolding s1 unat_1 using qB by linarith
    then have "1 \<le> delaylen l - bsize" by (simp only: word_le_nat_alt)
    then have "unat (delaylen l - bsize - 1) = unat (delaylen l - bsize) - unat (1 :: uint_t)"
      by (rule unat_sub)
    then show ?thesis by (simp add: s1)
  qed
  have s3: "unat (maxdelay l) = q * B - 1 - F"
  proof -
    have "unat (FractionalSampleAdditionalDelayRequired env) \<le> unat (delaylen l - bsize - 1)"
      unfolding s2 using qB assms(3) by linarith
    then have "FractionalSampleAdditionalDelayRequired env \<le> delaylen l - bsize - 1"
      by (simp only: word_le_nat_alt)
    then have "unat (delaylen l - bsize - 1 - FractionalSampleAdditionalDelayRequired env)
        = unat (delaylen l - bsize - 1) - unat (FractionalSampleAdditionalDelayRequired env)"
      by (rule unat_sub)
    then show ?thesis by (simp add: l(2) s2 F_def)
  qed
  have F: "F \<le> 2399" using assms(3) by (simp add: F_def)
  have md: "unat (maxdelay l) + F + B + 1 = unat (delaylen l)"
    unfolding s3 D DB using qB F by linarith
  have D2: "2 * unat (delaylen l) < 4294967296"
  proof -
    define X where "X = q * B"
    have "X \<le> 2400 + B - 1" using qle by (simp only: X_def)
    with B2 B have "2 * (X + B) < 4294967296" by presburger
    then show ?thesis by (simp only: D DB X_def)
  qed
  have dv: "B dvd unat (delaylen l)" unfolding D by simp
  have pos: "0 < unat (delaylen l)" unfolding D DB using B by simp
  have d1: "delay1 l \<le> real (unat (maxdelay l))"
    by (simp only: l(5) of_nat_0_le_iff)
  show ?thesis
    unfolding frame_ok_def
    using B len dv D2 md pos d1
    by (simp add: l(3) B_def [symmetric] F_def [symmetric])
qed

lemma Process_block_frame:
  assumes "Process_block env c l = Inr (c', l')" and "frame_ok env (blocksize c) l"
  shows "frame_ok env (blocksize c') l'"
proof -
  define B where "B = unat (blocksize c)"
  define D where "D = unat (delaylen l)"
  define P where "P = unat (delaypos l)"
  note ok = assms(2) [unfolded frame_ok_def, folded B_def D_def P_def]
  have B0: "0 < B" and PD: "P < D" and D2: "2 * D < 2 ^ 32"
    and md: "unat (maxdelay l) + unat (FractionalSampleAdditionalDelayRequired env) + B + 1 = D"
    and dv: "B dvd D" "B dvd P" and len: "length (delaymem l) = D"
    using ok by simp_all
  have PB: "P + B \<le> D" using frame_ok_pos [OF assms(2)] by (simp add: P_def B_def D_def)
  from assms(1) obtain c1 mem out where
    fill: "Process_fill env c l = Inr (c1, mem)"
    and c': "c' = c1\<lparr>output_buf := out\<rparr>"
    and l': "l' = l\<lparr>delaypos := (delaypos l + blocksize c1) mod delaylen l,
                    delaymem := mem,
                    delay1 := min (outputdelay c1) (real (unat (maxdelay l))),
                    level1 := outputlevel c1\<rparr>"
    by (auto simp: Process_block_def bindF_eq_Inr Let_def split: if_splits)
  from Process_fill_InrD [OF fill] have
    c1: "c1 = c \<or> c1 = fst (Convolver_Convolve env c)" and lm: "length mem = D"
    by (simp_all add: len)
  have b1: "blocksize c1 = blocksize c" using c1 by (auto simp: Convolver_Convolve_fields)
  have u3: "unat (delaypos l + blocksize c) = P + B"
  proof -
    have "unat (delaypos l) + unat (blocksize c) < 2 ^ LENGTH(32)"
      using PB D2 by (simp add: P_def B_def)
    then show ?thesis by (simp only: unat_add_lem [THEN iffD1] P_def B_def)
  qed
  have "B dvd (P + B) mod D" using dv by (simp add: dvd_mod)
  moreover have "(P + B) mod D < D" using PD by simp
  ultimately show ?thesis
    using B0 lm dv D2 md
    by (simp add: frame_ok_def c' b1 l' unat_mod u3 B_def [symmetric] D_def [symmetric])
qed

lemma worker_state_frame_ok:
  assumes "worker_state env c"
    and "unat (FractionalSampleAdditionalDelayRequired env) \<le> 2399"
  shows "blocksize c \<noteq> 0
     \<and> (\<forall>l. thread c = Some l \<longrightarrow> 2400 + 2 * unat (blocksize c) \<le> 2 ^ 31
            \<longrightarrow> frame_ok env (blocksize c) l)"
  using assms(1)
proof (induction rule: worker_state.induct)
  case (ws_new cx i bsize parts d c errs)
  then have b: "bsize \<noteq> 0" "blocksize c = bsize"
    by (auto simp: Convolver_new_def bindF_eq_Inr split: if_splits)
  have "frame_ok env bsize l"
    if "thread c = Some l" "2400 + 2 * unat bsize \<le> 2 ^ 31" for l
  proof -
    from ws_new that(1) have "Process_init env bsize = Inr l"
      by (auto simp: Convolver_new_def bindF_eq_Inr split: if_splits)
    from Process_init_frame_ok [OF b(1) that(2) assms(2) this] show ?thesis .
  qed
  with b show ?case by simp
next
  case (ws_start c buf off ic c')
  from StartConvolution_InrD [OF ws_start(2)] have
    "blocksize c' = blocksize c" "thread c' = thread c" by auto
  with ws_start.IH show ?case by simp
next
  case (ws_end c buf off oc lvl c' b)
  from EndConvolution_fields [OF ws_end(2)] have
    "blocksize c' = blocksize c" "thread c' = thread c" by auto
  with ws_end.IH show ?case by simp
next
  case (ws_step c c')
  show ?case
  proof (cases "thread c")
    case None
    with ws_step(2) have "c' = c" by (simp add: Process_step_def)
    with ws_step.IH show ?thesis by simp
  next
    case (Some l)
    show ?thesis
    proof (cases "startsignal c \<and> \<not> quitthread c")
      case True
      with Some ws_step(2) obtain c1 l1 where
        pb: "Process_block env (c\<lparr>startsignal := False\<rparr>) l = Inr (c1, l1)"
        and c': "c' = c1\<lparr>thread := Some l1, donesignal := True\<rparr>"
        by (auto simp: Process_step_def bindF_eq_Inr)
      from Process_block_fields [OF pb] have b: "blocksize c1 = blocksize c" by simp
      have "frame_ok env (blocksize c) l1" if "2400 + 2 * unat (blocksize c) \<le> 2 ^ 31"
      proof -
        from ws_step.IH Some that have "frame_ok env (blocksize c) l" by simp
        then have "frame_ok env (blocksize (c\<lparr>startsignal := False\<rparr>)) l" by simp
        from Process_block_frame [OF pb this] show ?thesis by (simp add: b)
      qed
      with ws_step.IH show ?thesis by (simp add: c' b)
    next
      case False
      with Some ws_step(2) have "c' = c \<or> c' = c\<lparr>startsignal := False, thread := None\<rparr>"
        by (auto simp: Process_step_def split: if_splits)
      with ws_step.IH show ?thesis by auto
    qed
  qed
next
  case (ws_params c lvl d hq)
  then show ?case by (simp add: SetParameters_def)
next
  case (ws_filter c f)
  then show ?case by (simp add: SetFilter_def)
qed

lemma example_worker_busy_state: "worker_state example_extern example_worker_busy"
proof -
  have 1: "worker_state example_extern example_worker"
    using example_worker_new by (rule ws_new)
  then have 2: "worker_state example_extern (SetParameters example_worker (1 / 2) 1 False)"
    by (rule ws_params)
  have "list_all (\<lambda>i. 0 + unat ((word_of_nat i :: uint_t) * 1) < length [3, 4 :: real])
      [0..<unat (blocksize (SetParameters example_worker (1 / 2) 1 False))]"
    by (simp add: SetParameters_def example_worker_def upt_0_2)
  from StartConvolution_Inr [OF this]
  have "StartConvolution (SetParameters example_worker (1 / 2) 1 False) [3, 4] 0 1
        = Inr example_worker_busy"
    by (simp add: SetParameters_def example_worker_def example_worker_busy_def upt_0_2 Let_def)
  with 2 show ?thesis by (rule ws_start)
qed

lemma Convolver_Convolve_startsignal:
  "snd (Convolver_Convolve env (c\<lparr>startsignal := False\<rparr>)) = snd (Convolver_Convolve env c)"
  by (auto simp: Convolver_Convolve_def Let_def split: option.splits)

lemma Process_step_Inr:
  assumes "thread c = Some l" and "startsignal c" and "\<not> quitthread c"
    and "Process_block env (c\<lparr>startsignal := False\<rparr>) l = Inr (c1, l1)"
  shows "Process_step env c = Inr (c1\<lparr>thread := Some l1, donesignal := True\<rparr>)"
  using assms by (simp add: Process_step_def)

lemma foldM_Inr_ex:
  assumes "\<And>i s. i < n \<Longrightarrow> P s \<Longrightarrow> \<exists>s'. f i s = Inr s' \<and> P s'" and "P s"
  shows "\<exists>s'. foldM f [0..<n] s = Inr s' \<and> P s'"
  using assms
proof (induction n)
  case 0
  then show ?case by simp
next
  case (Suc n)
  from Suc.IH [OF _ Suc.prems(2)] Suc.prems(1) obtain s1 where
    1: "foldM f [0..<n] s = Inr s1" and 2: "P s1" by (metis less_Suc_eq)
  from Suc.prems(1) [OF _ 2, of n] obtain s2 where "f n s1 = Inr s2" "P s2" by auto
  with 1 show ?case by (simp add: foldM_snoc)
qed

lemma unat_word_of_nat_small: "i < 2 ^ 32 \<Longrightarrow> unat (word_of_nat i :: uint_t) = i"
  by (simp add: unat_of_nat)

lemma StartConvolution_block:
  assumes "length buf = unat (blocksize c)"
  shows "StartConvolution c buf 0 1 =
     Inr (c\<lparr>input_buf := buf,
            zeroblocks := (if list_ex (\<lambda>x. x \<noteq> 0) buf then 0
                    else if zeroblocks c < maxzeroblocks c then zeroblocks c + 1
                    else zeroblocks c),
            startsignal := (if (if list_ex (\<lambda>x. x \<noteq> 0) buf then 0
                    else if zeroblocks c < maxzeroblocks c then zeroblocks c + 1
                    else zeroblocks c) < maxzeroblocks c then True else startsignal c)\<rparr>)"
proof -
  have lt: "unat (blocksize c) < 2 ^ 32" using unsigned_less [of "blocksize c"] by simp
  have u: "unat (word_of_nat i :: uint_t) = i" if "i < unat (blocksize c)" for i
    using that lt by (simp add: unat_word_of_nat_small)
  have "list_all (\<lambda>i. 0 + unat ((word_of_nat i :: uint_t) * 1) < length buf)
          [0..<unat (blocksize c)]"
    using assms by (simp add: list_all_iff u)
  note s = StartConvolution_Inr [OF this]
  have "map (\<lambda>i. buf ! (0 + unat ((word_of_nat i :: uint_t) * 1))) [0..<unat (blocksize c)]
        = map (\<lambda>i. buf ! i) [0..<unat (blocksize c)]"
    by (rule map_cong [OF refl]) (simp add: u)
  also have "\<dots> = buf" unfolding assms [symmetric] by (rule map_nth)
  finally show ?thesis using s by (simp add: Let_def)
qed

lemma EndConvolution_block:
  assumes "zeroblocks c < maxzeroblocks c" and "donesignal c"
    and "length (output_buf c) = unat (blocksize c)" and "length buf = unat (blocksize c)"
  shows "\<exists>b. EndConvolution c buf 0 1 lvl = Inr (c\<lparr>donesignal := False\<rparr>, b)"
proof -
  have lt: "unat (blocksize c) < 2 ^ 32" using unsigned_less [of "blocksize c"] by simp
  have u: "unat (word_of_nat i :: uint_t) = i" if "i < unat (blocksize c)" for i
    using that lt by (simp add: unat_word_of_nat_small)
  have "\<exists>b. foldM (\<lambda>i b. let k = 0 + unat ((word_of_nat i :: uint_t) * 1)
                           in if k < length b \<and> i < length (output_buf c)
                              then Inr (b[k := b ! k + output_buf c ! i * lvl])
                              else Inl OutOfBounds)
               [0..<unat (blocksize c)] buf = Inr b \<and> length b = unat (blocksize c)"
    by (rule foldM_Inr_ex) (simp_all add: Let_def u assms)
  then show ?thesis using assms(1,2) by (auto simp: EndConvolution_def)
qed



lemma example_Process_step:
  "\<exists>c'. Process_step example_extern example_worker_busy = Inr c'
     \<and> output_buf c' = [3, 9 / 4] \<and> input_buf c' = [3, 4] \<and> blocksize c' = 2
     \<and> zeroblocks c' = 0 \<and> maxzeroblocks c' = 1202 \<and> donesignal c'"
proof -
  from example_Process_block obtain c1 l1 where
    pb: "Process_block example_extern (example_worker_busy\<lparr>startsignal := False\<rparr>)
           example_locals = Inr (c1, l1)"
    and ob: "output_buf c1 = [3, 9 / 4]" by blast
  have t: "thread example_worker_busy = Some example_locals" "startsignal example_worker_busy"
    "\<not> quitthread example_worker_busy"
    by (simp_all add: example_worker_busy_def example_worker_def)
  note s = Process_step_Inr [OF t pb]
  from Process_block_fields [OF pb] have
    "input_buf c1 = [3, 4]" "blocksize c1 = 2" "zeroblocks c1 = 0" "maxzeroblocks c1 = 1202"
    by (simp_all add: example_worker_busy_def example_worker_def)
  with s ob show ?thesis by simp
qed

section \<open>Two blocks of nine samples\<close>

text \<open>
  With a block size that is not a power of two the weights \<open>a\<close> and \<open>b\<close> are rounded,
  and a read position that would be a whole number can come out just below it. The
  worker with blocks of nine samples and a delay of one sample, in its second block:
  the positions run from 2420 to 2429, and the position of sample 1 is a little less
  than 2421, so that the sample read is the one at \<open>2420 mod 2412 = 8\<close>, the last of the
  first block, and not the one at 9, the first of the second block.
\<close>

lemma nine_worker_new:
  "bindF (Convolver_new example_extern 9 0 9 1 0)
     (\<lambda>(c, errs). Inr (SetParameters (SetFilter c 0) 1 1 False, errs)) = Inr (nine_worker, [])"
  by (simp add: Convolver_new_def Process_init_def example_extern_def nine_worker_def
      maxadditionaldelay_def Let_def SetParameters_def SetFilter_def map_replicate_const)

lemma nine_interpolate:
  "interpolate 9 2420 2429 (Suc 0) = 5323835301691391 / 2199023255552"
  "interpolate 9 1 1 (Suc 0) = 1"
proof -
  have r0: "round_double (1 / 9) = 2001599834386887 / 18014398509481984"
  proof -
    have "round_double (1 / 9) = of_int 8006399337547548 * 2 powi (- 56)"
      by (rule round_double_eq) (simp_all add: round_even_def Let_def)
    then show ?thesis by simp
  qed
  have r1: "round_double (16012798675095097 / 18014398509481984) = 2001599834386887 / 2251799813685248"
  proof -
    have "round_double (16012798675095097 / 18014398509481984) = of_int 8006399337547548 * 2 powi (- 53)"
      by (rule round_double_eq) (simp_all add: round_even_def Let_def)
    then show ?thesis by simp
  qed
  have r2: "round_double (1210967899804066635 / 562949953421312) = 4730343358609635 / 2199023255552"
  proof -
    have "round_double (1210967899804066635 / 562949953421312) = of_int 4730343358609635 * 2 powi (- 41)"
      by (rule round_double_eq) (simp_all add: round_even_def Let_def)
    then show ?thesis by simp
  qed
  have r3: "round_double (4861885997725748523 / 18014398509481984) = 4747935544654051 / 17592186044416"
  proof -
    have "round_double (4861885997725748523 / 18014398509481984) = of_int 4747935544654051 * 2 powi (- 44)"
      by (rule round_double_eq) (simp_all add: round_even_def Let_def)
    then show ?thesis by simp
  qed
  have r4: "round_double (42590682413531131 / 17592186044416) = 5323835301691391 / 2199023255552"
  proof -
    have "round_double (42590682413531131 / 17592186044416) = of_int 5323835301691391 * 2 powi (- 41)"
      by (rule round_double_eq) (simp_all add: round_even_def Let_def)
    then show ?thesis by simp
  qed
  have r5: "round_double (2001599834386887 / 2251799813685248) = 2001599834386887 / 2251799813685248"
  proof -
    have "round_double (2001599834386887 / 2251799813685248) = of_int 8006399337547548 * 2 powi (- 53)"
      by (rule round_double_eq) (simp_all add: round_even_def Let_def)
    then show ?thesis by simp
  qed
  have r6: "round_double (2001599834386887 / 18014398509481984) = 2001599834386887 / 18014398509481984"
  proof -
    have "round_double (2001599834386887 / 18014398509481984) = of_int 8006399337547548 * 2 powi (- 56)"
      by (rule round_double_eq) (simp_all add: round_even_def Let_def)
    then show ?thesis by simp
  qed
  have r7: "round_double (18014398509481983 / 18014398509481984) = 1"
  proof -
    have "round_double (18014398509481983 / 18014398509481984) = of_int 9007199254740992 * 2 powi (- 53)"
      by (rule round_double_eq) (simp_all add: round_even_def Let_def)
    then show ?thesis by simp
  qed
  show "interpolate 9 2420 2429 (Suc 0) = 5323835301691391 / 2199023255552"
    by (simp add: interpolate_def Let_def r0 r1 r2 r3 r4 r5 r6 r7)
  show "interpolate 9 1 1 (Suc 0) = 1"
    by (simp add: interpolate_def Let_def r0 r1 r2 r3 r4 r5 r6 r7)
qed

lemma example_extern_block:
  "snd (Convolver_Convolve example_extern c) k
     = (if k < length (input_buf c) then input_buf c ! k else 0)"
  by (simp add: Convolver_Convolve_def Let_def example_extern_def split: option.splits)

lemma nine_block_facts:
  "length nine_block1 = 9" "list_ex (\<lambda>x. x \<noteq> 0) nine_block1" "nine_block1 ! 8 = 9"
  "length nine_block2 = 9" "list_ex (\<lambda>x. x \<noteq> 0) nine_block2" "nine_block2 ! 0 = 10"
  by (simp_all add: nine_block1_def nine_block2_def)

lemma nine_first_block:
  "\<exists>c1 c2 b l. StartConvolution nine_worker nine_block1 0 1 = Inr c1
     \<and> Process_step example_extern c1 = Inr c2
     \<and> EndConvolution c2 (replicate 9 0) 0 1 1 = Inr (c2\<lparr>donesignal := False\<rparr>, b)
     \<and> thread c2 = Some l \<and> frame_ok example_extern 9 l
     \<and> unat (delaylen l) = 2412 \<and> unat (maxdelay l) = 2397 \<and> unat (delaypos l) = 9
     \<and> delay1 l = 1 \<and> level1 l = 1 \<and> delaymem l ! 8 = 9
     \<and> blocksize c2 = 9 \<and> partitions c2 = 1 \<and> zeroblocks c2 = 0 \<and> maxzeroblocks c2 = 268
     \<and> outputdelay c2 = 1 \<and> outputlevel c2 = 1 \<and> \<not> hqproc c2 \<and> \<not> quitthread c2
     \<and> \<not> startsignal c2"
proof -
  define l0 where "l0 = \<lparr>maxdelay = 2397, delaypos = 0, delaylen = 2412,
                      delaymem = replicate 2412 (0 :: real), level1 = 1, delay1 = 0\<rparr>"
  define c1 where
    "c1 = nine_worker\<lparr>input_buf := nine_block1, zeroblocks := 0, startsignal := True\<rparr>"
  define c0 where "c0 = c1\<lparr>startsignal := False\<rparr>"
  have c0: "thread c0 = Some l0" "blocksize c0 = 9" "partitions c0 = 1" "zeroblocks c0 = 0"
    "maxzeroblocks c0 = 268" "outputdelay c0 = 1" "outputlevel c0 = 1" "\<not> hqproc c0"
    "\<not> quitthread c0" "\<not> startsignal c0" "\<not> donesignal c0" "input_buf c0 = nine_block1"
    by (simp_all add: c0_def c1_def nine_worker_def l0_def)
  have c1: "thread c1 = Some l0" "startsignal c1" "\<not> quitthread c1"
    by (simp_all add: c1_def nine_worker_def l0_def)
  have "length nine_block1 = unat (blocksize nine_worker)"
    by (simp add: nine_block_facts nine_worker_def)
  from StartConvolution_block [OF this]
  have st: "StartConvolution nine_worker nine_block1 0 1 = Inr c1"
    by (simp add: nine_block_facts c1_def nine_worker_def)
  have f: "frame_ok example_extern (blocksize c0) l0"
    by (simp add: frame_ok_def c0 l0_def example_extern_def)
  have p1: "round_double (real (unat (delaypos l0)) + real (unat (delaylen l0)) - delay1 l0)
            = 2412"
    using round_double_nat [of 2412] by (simp add: l0_def)
  have p2: "round_double (real (unat (delaypos l0)) + real (unat (blocksize c0))
              + real (unat (delaylen l0)) - min (outputdelay c0) (real (unat (maxdelay l0))))
            = 2420"
    using round_double_nat [of 2420] by (simp add: l0_def c0)
  have h2: "list_all (\<lambda>n. - 1 < interpolate (blocksize c0)
                (round_double (real (unat (delaypos l0)) + real (unat (delaylen l0)) - delay1 l0))
                (round_double (real (unat (delaypos l0)) + real (unat (blocksize c0))
                   + real (unat (delaylen l0))
                   - min (outputdelay c0) (real (unat (maxdelay l0))))) n
            \<and> interpolate (blocksize c0)
                (round_double (real (unat (delaypos l0)) + real (unat (delaylen l0)) - delay1 l0))
                (round_double (real (unat (delaypos l0)) + real (unat (blocksize c0))
                   + real (unat (delaylen l0))
                   - min (outputdelay c0) (real (unat (maxdelay l0))))) n < 2 ^ 32)
           [0..<unat (blocksize c0)]"
    unfolding p1 p2 by (rule interpolate_cast [where M = 2420]) simp_all
  from Process_block_Inr [OF f h2] obtain c' l' where
    pb: "Process_block example_extern c0 l0 = Inr (c', l')"
    and lo: "length (output_buf c') = unat (blocksize c0)"
    and mem: "\<forall>k<unat (delaylen l0). delaymem l' ! k =
            (if unat (delaypos l0) \<le> k \<and> k < unat (delaypos l0) + unat (blocksize c0)
             then (if zeroblocks c0 < partitions c0
                   then snd (Convolver_Convolve example_extern c0) (k - unat (delaypos l0)) else 0)
             else delaymem l0 ! k)"
    and dp: "unat (delaypos l') = (unat (delaypos l0) + unat (blocksize c0)) mod unat (delaylen l0)"
    and d1: "delay1 l' = min (outputdelay c0)
           (real (unat (delaylen l0)) - real (unat (blocksize c0)) - 1
              - real (unat (FractionalSampleAdditionalDelayRequired example_extern)))"
    and l1: "level1 l' = outputlevel c0"
    and dl: "delaylen l' = delaylen l0" and md: "maxdelay l' = maxdelay l0"
    and fr: "frame_ok example_extern (blocksize c') l'"
    unfolding Let_def by blast
  note fl = Process_block_fields [OF pb]
  have m8: "delaymem l' ! 8 = 9"
    using mem [rule_format, of 8]
    by (simp add: l0_def c0 example_extern_block nine_block_facts)
  define c2 where "c2 = c'\<lparr>thread := Some l', donesignal := True\<rparr>"
  have ps: "Process_step example_extern c1 = Inr c2"
    unfolding c2_def
    by (rule Process_step_Inr [OF c1]) (simp add: pb [unfolded c0_def])
  have c2: "zeroblocks c2 < maxzeroblocks c2" "donesignal c2"
    "length (output_buf c2) = unat (blocksize c2)"
    "length (replicate 9 (0 :: real)) = unat (blocksize c2)"
    using fl lo by (simp_all add: c2_def c0)
  from EndConvolution_block [OF c2, of 1] obtain b where
    e: "EndConvolution c2 (replicate 9 0) 0 1 1 = Inr (c2\<lparr>donesignal := False\<rparr>, b)" ..
  have "thread c2 = Some l'" by (simp add: c2_def)
  moreover have "frame_ok example_extern 9 l'"
    using fr fl by (simp add: c0)
  moreover have "unat (delaylen l') = 2412" "unat (maxdelay l') = 2397"
    "unat (delaypos l') = 9" "delay1 l' = 1" "level1 l' = 1"
    using dp d1 l1 by (simp_all add: dl md l0_def c0 example_extern_def)
  moreover have "blocksize c2 = 9" "partitions c2 = 1" "zeroblocks c2 = 0"
    "maxzeroblocks c2 = 268" "outputdelay c2 = 1" "outputlevel c2 = 1"
    "\<not> hqproc c2" "\<not> quitthread c2" "\<not> startsignal c2"
    using fl by (simp_all add: c2_def c0)
  ultimately show ?thesis using st ps e m8 by blast
qed

lemma nine_second_block:
  assumes "thread c = Some l" and "frame_ok example_extern 9 l"
    and "unat (delaylen l) = 2412" and "unat (maxdelay l) = 2397"
    and "unat (delaypos l) = 9" and "delay1 l = 1" and "level1 l = 1"
    and "delaymem l ! 8 = 9"
    and "blocksize c = 9" and "partitions c = 1" and "zeroblocks c = 0"
    and "maxzeroblocks c = 268" and "outputdelay c = 1" and "outputlevel c = 1"
    and "\<not> hqproc c" and "\<not> quitthread c" and "\<not> startsignal c"
  shows "\<exists>c1 c2 l'. StartConvolution c nine_block2 0 1 = Inr c1
     \<and> thread c1 = Some l \<and> outputdelay c1 = 1 \<and> outputlevel c1 = 1 \<and> hqproc c1 = False
     \<and> blocksize c1 = 9
     \<and> Process_step example_extern c1 = Inr c2 \<and> thread c2 = Some l'
     \<and> output_buf c2 ! 1 = 9 \<and> delaymem l' ! 8 = 9 \<and> delaymem l' ! 9 = 10"
proof -
  define c1 where
    "c1 = c\<lparr>input_buf := nine_block2, zeroblocks := 0, startsignal := True\<rparr>"
  define c0 where "c0 = c1\<lparr>startsignal := False\<rparr>"
  have c0: "thread c0 = Some l" "blocksize c0 = 9" "partitions c0 = 1" "zeroblocks c0 = 0"
    "maxzeroblocks c0 = 268" "outputdelay c0 = 1" "outputlevel c0 = 1" "\<not> hqproc c0"
    "\<not> quitthread c0" "\<not> startsignal c0" "input_buf c0 = nine_block2"
    using assms by (simp_all add: c0_def c1_def)
  have c1: "thread c1 = Some l" "startsignal c1" "\<not> quitthread c1"
    using assms by (simp_all add: c1_def)
  have "length nine_block2 = unat (blocksize c)"
    by (simp add: nine_block_facts assms)
  from StartConvolution_block [OF this]
  have st: "StartConvolution c nine_block2 0 1 = Inr c1"
    by (simp add: nine_block_facts c1_def assms)
  have B: "unat (blocksize c0) = 9" by (simp add: c0)
  have rB: "real (unat (blocksize c0)) = 9" unfolding B by simp
  have rD: "real (unat (delaylen l)) = 2412" unfolding assms(3) by simp
  have rP: "real (unat (delaypos l)) = 9" unfolding assms(5) by simp
  have rM: "real (unat (maxdelay l)) = 2397" unfolding assms(4) by simp
  have f: "frame_ok example_extern (blocksize c0) l"
    using assms(2) by (simp add: c0)
  have p1: "round_double (real (unat (delaypos l)) + real (unat (delaylen l)) - delay1 l)
            = 2420"
    unfolding rD rP assms(6) using round_double_nat [of 2420] by simp
  have p2: "round_double (real (unat (delaypos l)) + real (unat (blocksize c0))
              + real (unat (delaylen l)) - min (outputdelay c0) (real (unat (maxdelay l))))
            = 2429"
    unfolding rD rP rB rM c0 using round_double_nat [of 2429] by simp
  have p3: "round_double ((real (unat (delaypos l)) + real (unat (blocksize c0)))
                      + real (unat (delaylen l))
                      - min (outputdelay c0)
                          (real (unat (delaylen l)) - real (unat (blocksize c0)) - 1
                             - real (unat (FractionalSampleAdditionalDelayRequired
                                  example_extern))))
            = 2429"
    unfolding rD rP rB c0 using round_double_nat [of 2429] by (simp add: example_extern_def)
  have h2: "list_all (\<lambda>n. - 1 < interpolate (blocksize c0)
                (round_double (real (unat (delaypos l)) + real (unat (delaylen l)) - delay1 l))
                (round_double (real (unat (delaypos l)) + real (unat (blocksize c0))
                   + real (unat (delaylen l))
                   - min (outputdelay c0) (real (unat (maxdelay l))))) n
            \<and> interpolate (blocksize c0)
                (round_double (real (unat (delaypos l)) + real (unat (delaylen l)) - delay1 l))
                (round_double (real (unat (delaypos l)) + real (unat (blocksize c0))
                   + real (unat (delaylen l))
                   - min (outputdelay c0) (real (unat (maxdelay l))))) n < 2 ^ 32)
           [0..<unat (blocksize c0)]"
    unfolding p1 p2 by (rule interpolate_cast [where M = 2429]) simp_all
  from Process_block_Inr [OF f h2] obtain c' l' where
    pb: "Process_block example_extern c0 l = Inr (c', l')"
    and out: "\<not> hqproc c0 \<longrightarrow> (\<forall>n<unat (blocksize c0). output_buf c' ! n =
            round_float (round_double
              (interpolate (blocksize c0) (level1 l) (outputlevel c0) n
               * delaymem l' ! (nat \<lfloor>interpolate (blocksize c0)
                   (round_double (real (unat (delaypos l)) + real (unat (delaylen l))
                      - delay1 l))
                   (round_double ((real (unat (delaypos l)) + real (unat (blocksize c0)))
                      + real (unat (delaylen l))
                      - min (outputdelay c0)
                          (real (unat (delaylen l)) - real (unat (blocksize c0)) - 1
                             - real (unat (FractionalSampleAdditionalDelayRequired
                                  example_extern))))) n\<rfloor>
                 mod unat (delaylen l)))))"
    and mem: "\<forall>k<unat (delaylen l). delaymem l' ! k =
            (if unat (delaypos l) \<le> k \<and> k < unat (delaypos l) + unat (blocksize c0)
             then (if zeroblocks c0 < partitions c0
                   then snd (Convolver_Convolve example_extern c0) (k - unat (delaypos l)) else 0)
             else delaymem l ! k)"
    unfolding Let_def by blast
  have m8: "delaymem l' ! 8 = 9"
    using mem [rule_format, of 8] by (simp add: assms(3,5,8))
  have m9: "delaymem l' ! 9 = 10"
    using mem [rule_format, of 9]
    by (simp add: assms(3,5) c0 example_extern_block nine_block_facts)
  have r9: "round_double 9 = 9" "round_float 9 = 9"
    using round_double_nat [of 9] round_float_dyadic [of 9 0] by simp_all
  have "output_buf c' ! 1 =
            round_float (round_double
              (interpolate (blocksize c0) (level1 l) (outputlevel c0) 1
               * delaymem l' ! (nat \<lfloor>interpolate (blocksize c0)
                   (round_double (real (unat (delaypos l)) + real (unat (delaylen l))
                      - delay1 l))
                   (round_double ((real (unat (delaypos l)) + real (unat (blocksize c0)))
                      + real (unat (delaylen l))
                      - min (outputdelay c0)
                          (real (unat (delaylen l)) - real (unat (blocksize c0)) - 1
                             - real (unat (FractionalSampleAdditionalDelayRequired
                                  example_extern))))) 1\<rfloor>
                 mod unat (delaylen l))))"
    using out c0(8) B by simp
  also have "\<dots> = round_float (round_double
       (1 * delaymem l' ! (nat \<lfloor>(5323835301691391 / 2199023255552 :: real)\<rfloor> mod 2412)))"
    unfolding p1 p3 by (simp add: assms(3,7) c0 nine_interpolate)
  also have "nat \<lfloor>(5323835301691391 / 2199023255552 :: real)\<rfloor> mod 2412 = 8" by simp
  finally have o1: "output_buf c' ! 1 = 9" using m8 r9 by simp
  define c2 where "c2 = c'\<lparr>thread := Some l', donesignal := True\<rparr>"
  have ps: "Process_step example_extern c1 = Inr c2"
    unfolding c2_def
    by (rule Process_step_Inr [OF c1]) (simp add: pb [unfolded c0_def])
  have "thread c2 = Some l'" "output_buf c2 ! 1 = 9"
    using o1 by (simp_all add: c2_def)
  moreover have "thread c1 = Some l" "outputdelay c1 = 1" "outputlevel c1 = 1"
    "hqproc c1 = False" "blocksize c1 = 9"
    using assms by (simp_all add: c1_def)
  ultimately show ?thesis using st ps m8 m9 by blast
qed

text \<open>
  And a worker whose new delay is \<open>- 2 ^ 33\<close> samples: the position of its second
  sample does not fit \<open>uint_t\<close>.
\<close>

lemma far_rounding:
  "round_double 2402 = 2402" "round_double 8589936996 = 8589936996"
  "round_double (1 / 2) = 1 / 2" "round_double 1201 = 1201"
  "round_double 4294968498 = 4294968498" "round_double 4294969699 = 4294969699"
  using round_double_nat [of 2402] round_double_nat [of 8589936996]
    round_double_dyadic [of 1 "- 1"] round_double_nat [of 1201]
    round_double_nat [of 4294968498] round_double_nat [of 4294969699]
  by simp_all

lemma far_interpolate:
  "interpolate 2 2402 8589936996 0 = 2402"
  "interpolate 2 2402 8589936996 (Suc 0) = 4294969699"
  by (simp_all add: interpolate_def Let_def far_rounding)

lemma far_Process_step:
  "Process_step example_extern example_worker_far = Inl ConversionOutOfRange"
  by (simp add: Process_step_def Process_block_def Process_fill_def write_block_def
      example_worker_far_def example_worker_busy_def example_worker_def example_locals_def
      Convolver_Convolve_def example_extern_def Let_def output_sample_def double_to_uint_def
      far_rounding far_interpolate upt_0_2 unat_word_ariths)


section \<open>One tick of the manager\<close>

lemma foldM_cong:
  "(\<And>x s. x \<in> set xs \<Longrightarrow> f x s = g x s) \<Longrightarrow> foldM f xs s = foldM g xs s"
  by (induction xs arbitrary: s) (auto split: sum.splits)

lemma unat_word_of_nat_mult:
  fixes w :: uint_t
  assumes "i < n" and "n * unat w \<le> 2 ^ 32"
  shows "unat ((word_of_nat i :: uint_t) * w) = i * unat w"
proof (cases "unat w = 0")
  case True
  then have "w = 0" by (simp add: unat_eq_0)
  then show ?thesis by simp
next
  case False
  with assms(1) have "i * unat w < n * unat w" by simp
  then have lt: "i * unat w < 2 ^ 32" using assms(2) by (rule less_le_trans)
  have "i \<le> i * unat w" using False by (cases "unat w") simp_all
  then have "i < 2 ^ 32" using lt by (rule le_less_trans)
  then have u: "unat (word_of_nat i :: uint_t) = i" by (simp add: unat_of_nat)
  have "unat (word_of_nat i :: uint_t) * unat w < 2 ^ LENGTH(32)" using lt by (simp add: u)
  then show ?thesis by (simp only: unat_mult_lem [THEN iffD1] u)
qed

lemma accumulate_step:
  assumes "ch < stride" and "ch + n * stride < length out"
  shows "(accumulate_spec out ch stride scale blk n)
           [ch + n * stride := accumulate_spec out ch stride scale blk n ! (ch + n * stride)
                               + blk ! n * scale]
         = accumulate_spec out ch stride scale blk (Suc n)"
proof (rule nth_equalityI)
  show "length ((accumulate_spec out ch stride scale blk n)
           [ch + n * stride := accumulate_spec out ch stride scale blk n ! (ch + n * stride)
                               + blk ! n * scale])
        = length (accumulate_spec out ch stride scale blk (Suc n))"
    by (simp add: accumulate_spec_def)
next
  fix k
  assume "k < length ((accumulate_spec out ch stride scale blk n)
           [ch + n * stride := accumulate_spec out ch stride scale blk n ! (ch + n * stride)
                               + blk ! n * scale])"
  then have k: "k < length out" by (simp add: accumulate_spec_def)
  have m: "(ch + n * stride) mod stride = ch" "(ch + n * stride) div stride = n"
    using assms(1) by simp_all
  show "(accumulate_spec out ch stride scale blk n)
           [ch + n * stride := accumulate_spec out ch stride scale blk n ! (ch + n * stride)
                               + blk ! n * scale] ! k
        = accumulate_spec out ch stride scale blk (Suc n) ! k"
  proof (cases "k = ch + n * stride")
    case True
    then show ?thesis using assms(2) m by (simp add: accumulate_spec_def)
  next
    case False
    have "\<not> (k mod stride = ch \<and> k div stride = n)"
    proof
      assume a: "k mod stride = ch \<and> k div stride = n"
      have "k = k div stride * stride + k mod stride" by simp
      with a have "k = ch + n * stride" by simp
      with False show False by simp
    qed
    then have "(k mod stride = ch \<and> k div stride < Suc n) = (k mod stride = ch \<and> k div stride < n)"
      by (auto simp: less_Suc_eq)
    with False k show ?thesis by (simp add: accumulate_spec_def)
  qed
qed

lemma mix_loop:
  assumes "ch < stride"
    and "foldM (\<lambda>i b. let k = ch + i * stride
                      in if k < length b \<and> i < length blk
                         then Inr (b[k := b ! k + blk ! i * scale])
                         else Inl OutOfBounds) [0..<n] out = Inr out'"
  shows "out' = accumulate_spec out ch stride scale blk n"
  using assms(2)
proof (induction n arbitrary: out')
  case 0
  then show ?case by (simp add: accumulate_spec_def map_nth)
next
  case (Suc n)
  let ?f = "\<lambda>i b. let k = ch + i * stride
                      in if k < length b \<and> i < length blk
                         then Inr (b[k := b ! k + blk ! i * scale])
                         else Inl OutOfBounds"
  from Suc.prems obtain o1 where
    1: "foldM ?f [0..<n] out = Inr o1" and 2: "?f n o1 = Inr out'"
    by (auto simp: foldM_snoc bindF_eq_Inr)
  from Suc.IH [OF 1] have o1: "o1 = accumulate_spec out ch stride scale blk n" .
  from 2 have k: "ch + n * stride < length o1"
    and o': "out' = o1[ch + n * stride := o1 ! (ch + n * stride) + blk ! n * scale]"
    by (auto simp: Let_def split: if_splits)
  from k have "ch + n * stride < length out" by (simp add: o1 accumulate_spec_def)
  from accumulate_step [OF assms(1) this] show ?case
    unfolding o' o1 .
qed

lemma EndConvolution_mix:
  assumes "EndConvolution c buf ch oc lvl = Inr (c', b)"
    and "ch < unat oc" and "unat (blocksize c) * unat oc \<le> 2 ^ 32"
  shows "b = (if zeroblocks c < maxzeroblocks c
              then accumulate_spec buf ch (unat oc) lvl (output_buf c) (unat (blocksize c))
              else buf)"
    and "c' = c \<or> c' = c\<lparr>donesignal := False\<rparr>"
proof -
  show "c' = c \<or> c' = c\<lparr>donesignal := False\<rparr>"
    by (rule EndConvolution_fields [OF assms(1)])
  show "b = (if zeroblocks c < maxzeroblocks c
              then accumulate_spec buf ch (unat oc) lvl (output_buf c) (unat (blocksize c))
              else buf)"
  proof (cases "zeroblocks c < maxzeroblocks c")
    case False
    with assms(1) show ?thesis by (simp add: EndConvolution_def)
  next
    case True
    let ?g = "\<lambda>i b. let k = ch + unat ((word_of_nat i :: uint_t) * oc)
                       in if k < length b \<and> i < length (output_buf c)
                          then Inr (b[k := b ! k + output_buf c ! i * lvl])
                          else Inl OutOfBounds"
    let ?f = "\<lambda>i b. let k = ch + i * unat oc
                       in if k < length b \<and> i < length (output_buf c)
                          then Inr (b[k := b ! k + output_buf c ! i * lvl])
                          else Inl OutOfBounds"
    from True assms(1) have "foldM ?g [0..<unat (blocksize c)] buf = Inr b"
      by (auto simp: EndConvolution_def bindF_eq_Inr split: if_splits)
    moreover have "foldM ?g [0..<unat (blocksize c)] buf = foldM ?f [0..<unat (blocksize c)] buf"
      by (rule foldM_cong) (simp add: unat_word_of_nat_mult [OF _ assms(3)])
    ultimately have "foldM ?f [0..<unat (blocksize c)] buf = Inr b" by simp
    from mix_loop [OF assms(2) this] True show ?thesis by simp
  qed
qed

lemma map_eq_nth:
  assumes "map f xs = map f ys" and "i < length xs"
  shows "f (xs ! i) = f (ys ! i)"
proof -
  from assms(1) have "length xs = length ys" by (rule map_eq_imp_length_eq)
  with assms show ?thesis by (metis nth_map)
qed

lemma map_update_same:
  assumes "f c = f (xs ! i)"
  shows "map f (xs[i := c]) = map f xs"
proof (cases "i < length xs")
  case True
  then have "(map f xs)[i := f (xs ! i)] = map f xs"
    by (metis list_update_id nth_map)
  then show ?thesis by (simp add: map_update assms)
next
  case False
  then have "xs[i := c] = xs" by (intro list_update_beyond) simp
  then show ?thesis by simp
qed

lemma mix_step_view:
  fixes cs cs' :: "'bc Convolver list"
  assumes "map worker_view cs = map worker_view cs'" and "i < length cs"
  shows "mix_step cs stride scale out i = mix_step cs' stride scale out i"
  using map_eq_nth [OF assms] by (simp add: mix_step_def worker_view_def)

lemma Convolve_end_step:
  assumes "Convolve_end oc i (m, out) = Inr (m1, out1)"
    and "i < 2 ^ 32"
    and "unat (blocksize (convolvers m ! i)) * unat oc \<le> 2 ^ 32"
  shows "out1 = mix_step (convolvers m) (unat oc) (audioscale m) out i"
    and "map worker_view (convolvers m1) = map worker_view (convolvers m)"
    and "audioscale m1 = audioscale m"
proof -
  from assms(1) obtain c' where oc: "oc \<noteq> 0"
    and e: "EndConvolution (convolvers m ! i) out (unat ((word_of_nat i :: uint_t) mod oc)) oc
              (audioscale m) = Inr (c', out1)"
    and m1: "m1 = m\<lparr>convolvers := (convolvers m)[i := c']\<rparr>"
    by (auto simp: Convolve_end_def bindF_eq_Inr split: if_splits)
  have ch: "unat ((word_of_nat i :: uint_t) mod oc) = i mod unat oc"
    by (simp add: unat_mod unat_word_of_nat_small [OF assms(2)])
  have lt: "i mod unat oc < unat oc" using oc by (simp add: unat_gt_0)
  note mx = EndConvolution_mix [OF e [unfolded ch] lt assms(3)]
  from mx(1) show "out1 = mix_step (convolvers m) (unat oc) (audioscale m) out i"
    by (simp add: mix_step_def)
  from mx(2) have "worker_view c' = worker_view (convolvers m ! i)"
    by (auto simp: worker_view_def)
  then show "map worker_view (convolvers m1) = map worker_view (convolvers m)"
    unfolding m1 by (simp add: map_update_same)
  show "audioscale m1 = audioscale m" by (simp add: m1)
qed

lemma Convolve_end_loop:
  assumes "foldM (Convolve_end oc) [0..<n] (m, out) = Inr (m', out')"
    and "n \<le> length (convolvers m)" and "length (convolvers m) \<le> 2 ^ 32"
    and "list_all (\<lambda>c. unat (blocksize c) * unat oc \<le> 2 ^ 32) (convolvers m)"
  shows "out' = foldl (mix_step (convolvers m) (unat oc) (audioscale m)) out [0..<n]
     \<and> map worker_view (convolvers m') = map worker_view (convolvers m)
     \<and> audioscale m' = audioscale m"
  using assms(1,2)
proof (induction n arbitrary: m' out')
  case 0
  then show ?case by simp
next
  case (Suc n)
  from Suc.prems(1) obtain m1 o1 where
    1: "foldM (Convolve_end oc) [0..<n] (m, out) = Inr (m1, o1)"
    and 2: "Convolve_end oc n (m1, o1) = Inr (m', out')"
    by (auto simp: foldM_snoc bindF_eq_Inr)
  from Suc.prems(2) have n: "n < length (convolvers m)" "n \<le> length (convolvers m)" by simp_all
  from Suc.IH [OF 1 n(2)] have
    ih: "o1 = foldl (mix_step (convolvers m) (unat oc) (audioscale m)) out [0..<n]"
      "map worker_view (convolvers m1) = map worker_view (convolvers m)"
      "audioscale m1 = audioscale m" by simp_all
  have n32: "n < 2 ^ 32" using n(1) assms(3) by simp
  have "unat (blocksize (convolvers m ! n)) * unat oc \<le> 2 ^ 32"
    using assms(4) n(1) by (simp add: list_all_length)
  moreover have "blocksize (convolvers m1 ! n) = blocksize (convolvers m ! n)"
    using map_eq_nth [OF ih(2) [symmetric] n(1)] by (simp add: worker_view_def)
  ultimately have b: "unat (blocksize (convolvers m1 ! n)) * unat oc \<le> 2 ^ 32" by simp
  note st = Convolve_end_step [OF 2 n32 b]
  have "mix_step (convolvers m1) (unat oc) (audioscale m) o1 n
        = mix_step (convolvers m) (unat oc) (audioscale m) o1 n"
    using n(1) by (intro mix_step_view [OF ih(2)]) (simp add: map_eq_imp_length_eq [OF ih(2)])
  with st(1) ih(1,3) have "out' = foldl (mix_step (convolvers m) (unat oc) (audioscale m)) out [0..<Suc n]"
    by simp
  with st(2,3) ih(2,3) show ?case by simp
qed

lemma UpdateConvolverParameters_others:
  assumes "UpdateConvolverParameters m cv = Inr m1"
  shows "map blocksize (convolvers m1) = map blocksize (convolvers m)"
    and "audioscale m1 = audioscale m"
    and "j \<noteq> unat cv \<Longrightarrow> convolvers m1 ! j = convolvers m ! j"
    and "length (convolvers m1) = length (convolvers m)"
proof -
  have "m1 = m \<or> (\<exists>c. blocksize c = blocksize (convolvers m ! unat cv)
                  \<and> m1 = m\<lparr>convolvers := (convolvers m)[unat cv := c]\<rparr>)"
  proof (cases "unat cv < length (convolvers m) \<and> unat cv < length (parameters m)
      \<and> unat (irindex (parameters m ! unat cv)) < length (filters m)")
    case True
    then have u: "UpdateConvolverParameters m cv =
     Inr (m\<lparr>convolvers := (convolvers m)[unat cv :=
            (convolvers m ! unat cv)
              \<lparr>filter_ptr := Some (unat (irindex (parameters m ! unat cv))),
               outputlevel := level (parameters m ! unat cv),
               outputdelay :=
                 (if unat (irindex (parameters m ! unat cv)) < length (irdelays m)
                  then snd (irdelays m ! unat (irindex (parameters m ! unat cv)))
                       + fst (irdelays m ! unat (irindex (parameters m ! unat cv))) * delayscale m
                  else 0) + delay (parameters m ! unat cv),
               hqproc := m_hqproc m\<rparr>]\<rparr>)"
      by (intro UpdateConvolverParameters_Inr) simp_all
    define c where "c = (convolvers m ! unat cv)
              \<lparr>filter_ptr := Some (unat (irindex (parameters m ! unat cv))),
               outputlevel := level (parameters m ! unat cv),
               outputdelay :=
                 (if unat (irindex (parameters m ! unat cv)) < length (irdelays m)
                  then snd (irdelays m ! unat (irindex (parameters m ! unat cv)))
                       + fst (irdelays m ! unat (irindex (parameters m ! unat cv))) * delayscale m
                  else 0) + delay (parameters m ! unat cv),
               hqproc := m_hqproc m\<rparr>"
    have "m1 = m\<lparr>convolvers := (convolvers m)[unat cv := c]\<rparr>"
      using assms u by (simp add: c_def)
    moreover have "blocksize c = blocksize (convolvers m ! unat cv)" by (simp add: c_def)
    ultimately show ?thesis by blast
  next
    case False
    with assms have "m1 = m"
      by (auto simp: UpdateConvolverParameters_def Let_def split: if_splits)
    then show ?thesis by simp
  qed
  then show "map blocksize (convolvers m1) = map blocksize (convolvers m)"
    and "audioscale m1 = audioscale m"
    and "j \<noteq> unat cv \<Longrightarrow> convolvers m1 ! j = convolvers m ! j"
    and "length (convolvers m1) = length (convolvers m)"
    by (auto simp: map_update_same)
qed

lemma StartConvolution_input:
  assumes "StartConvolution c buf off ic = Inr c'"
    and "unat (blocksize c) * unat ic \<le> 2 ^ 32"
  shows "input_buf c' = map (\<lambda>n. buf ! (n * unat ic + off)) [0..<unat (blocksize c)]"
    and "blocksize c' = blocksize c"
proof -
  let ?f = "\<lambda>i. let k = off + unat ((word_of_nat i :: uint_t) * ic)
                  in if k < length buf then Inr (buf ! k) else Inl OutOfBounds"
  from assms(1) obtain inp where
    t: "traverse ?f [0..<unat (blocksize c)] = Inr inp"
    and i: "input_buf c' = inp" and b: "blocksize c' = blocksize c"
    by (auto simp: StartConvolution_def bindF_eq_Inr Let_def)
  from traverse_InrD [OF t] have
    len: "length inp = unat (blocksize c)"
    and el: "\<forall>i<unat (blocksize c). ?f ([0..<unat (blocksize c)] ! i) = Inr (inp ! i)"
    by simp_all
  have "inp ! n = buf ! (n * unat ic + off)" if "n < unat (blocksize c)" for n
  proof -
    from el that have "?f n = Inr (inp ! n)" by simp
    then have "inp ! n = buf ! (off + unat ((word_of_nat n :: uint_t) * ic))"
      by (auto simp: Let_def split: if_splits)
    then show ?thesis
      by (simp add: unat_word_of_nat_mult [OF that assms(2)] add.commute)
  qed
  then have "inp = map (\<lambda>n. buf ! (n * unat ic + off)) [0..<unat (blocksize c)]"
    using len by (intro nth_equalityI) simp_all
  with i show "input_buf c' = map (\<lambda>n. buf ! (n * unat ic + off)) [0..<unat (blocksize c)]"
    by simp
  show "blocksize c' = blocksize c" by (rule b)
qed

lemma Convolve_start_step:
  assumes "Convolve_start ic oc inbuf i m = Inr m1"
    and "i < length (convolvers m)" and "i < 2 ^ 32"
    and "unat (blocksize (convolvers m ! i)) * unat ic \<le> 2 ^ 32"
  shows "map blocksize (convolvers m1) = map blocksize (convolvers m)"
    and "audioscale m1 = audioscale m"
    and "input_buf (convolvers m1 ! i)
          = map (\<lambda>n. inbuf ! (n * unat ic + i div unat oc))
              [0..<unat (blocksize (convolvers m ! i))]"
    and "j \<noteq> i \<Longrightarrow> convolvers m1 ! j = convolvers m ! j"
proof -
  from assms(1) obtain m0 c where
    up: "m0 = m \<or> UpdateConvolverParameters m (word_of_nat i) = Inr m0"
    and oc: "oc \<noteq> 0"
    and st: "StartConvolution (convolvers m0 ! i) inbuf
               (unat ((word_of_nat i :: uint_t) div oc)) ic = Inr c"
    and m1: "m1 = m0\<lparr>convolvers := (convolvers m0)[i := c]\<rparr>"
    by (auto simp: Convolve_start_def bindF_eq_Inr split: if_splits)
  have ui: "unat (word_of_nat i :: uint_t) = i" by (rule unat_word_of_nat_small [OF assms(3)])
  from up have m0: "map blocksize (convolvers m0) = map blocksize (convolvers m)"
    "audioscale m0 = audioscale m" "length (convolvers m0) = length (convolvers m)"
    "\<And>j. j \<noteq> i \<Longrightarrow> convolvers m0 ! j = convolvers m ! j"
    using UpdateConvolverParameters_others [of m "word_of_nat i" m0] by (auto simp: ui)
  have i0: "i < length (convolvers m0)" using assms(2) m0(3) by simp
  have b0: "blocksize (convolvers m0 ! i) = blocksize (convolvers m ! i)"
    using map_eq_nth [OF m0(1) i0] .
  have off: "unat ((word_of_nat i :: uint_t) div oc) = i div unat oc"
    by (simp add: unat_div ui)
  have "unat (blocksize (convolvers m0 ! i)) * unat ic \<le> 2 ^ 32"
    using assms(4) by (simp add: b0)
  note s = StartConvolution_input [OF st this]
  show "map blocksize (convolvers m1) = map blocksize (convolvers m)"
    unfolding m1 using s(2) m0(1) by (simp add: map_update_same)
  show "audioscale m1 = audioscale m" by (simp add: m1 m0(2))
  show "input_buf (convolvers m1 ! i)
          = map (\<lambda>n. inbuf ! (n * unat ic + i div unat oc))
              [0..<unat (blocksize (convolvers m ! i))]"
    using s(1) i0 by (simp add: m1 off b0)
  show "convolvers m1 ! j = convolvers m ! j" if "j \<noteq> i"
    using that m0(4) by (simp add: m1)
qed

lemma Convolve_start_loop:
  assumes "foldM (Convolve_start ic oc inbuf) [0..<n] m = Inr m'"
    and "n \<le> length (convolvers m)" and "length (convolvers m) \<le> 2 ^ 32"
    and "list_all (\<lambda>b. unat b * unat ic \<le> 2 ^ 32) (map blocksize (convolvers m))"
  shows "map blocksize (convolvers m') = map blocksize (convolvers m)
     \<and> audioscale m' = audioscale m
     \<and> (\<forall>j<n. input_buf (convolvers m' ! j)
                 = map (\<lambda>k. inbuf ! (k * unat ic + j div unat oc))
                     [0..<unat (blocksize (convolvers m ! j))])"
  using assms(1,2)
proof (induction n arbitrary: m')
  case 0
  then show ?case by simp
next
  case (Suc n)
  from Suc.prems(1) obtain m1 where
    1: "foldM (Convolve_start ic oc inbuf) [0..<n] m = Inr m1"
    and 2: "Convolve_start ic oc inbuf n m1 = Inr m'"
    by (auto simp: foldM_snoc bindF_eq_Inr)
  from Suc.prems(2) have n: "n < length (convolvers m)" "n \<le> length (convolvers m)" by simp_all
  from Suc.IH [OF 1 n(2)] have
    ih: "map blocksize (convolvers m1) = map blocksize (convolvers m)"
      "audioscale m1 = audioscale m"
      "\<forall>j<n. input_buf (convolvers m1 ! j)
                 = map (\<lambda>k. inbuf ! (k * unat ic + j div unat oc))
                     [0..<unat (blocksize (convolvers m ! j))]" by simp_all
  have n1: "n < length (convolvers m1)"
    using n(1) map_eq_imp_length_eq [OF ih(1)] by simp
  have n32: "n < 2 ^ 32" using n(1) assms(3) by simp
  have bn: "blocksize (convolvers m1 ! n) = blocksize (convolvers m ! n)"
    using map_eq_nth [OF ih(1) n1] .
  have "unat (blocksize (convolvers m ! n)) * unat ic \<le> 2 ^ 32"
    using assms(4) n(1) by (simp add: list_all_length)
  then have b: "unat (blocksize (convolvers m1 ! n)) * unat ic \<le> 2 ^ 32" by (simp add: bn)
  note st = Convolve_start_step [OF 2 n1 n32 b]
  have "input_buf (convolvers m' ! j)
          = map (\<lambda>k. inbuf ! (k * unat ic + j div unat oc))
              [0..<unat (blocksize (convolvers m ! j))]" if "j < Suc n" for j
  proof (cases "j = n")
    case True
    then show ?thesis using st(3) by (simp add: bn)
  next
    case False
    with that have "j < n" by simp
    with ih(3) st(4) [OF False] show ?thesis by simp
  qed
  with st(1,2) ih(1,2) show ?case by simp
qed

lemma Process_step_view:
  assumes "Process_step env c = Inr c'"
  shows "input_buf c' = input_buf c \<and> blocksize c' = blocksize c"
  using assms
  by (auto simp: Process_step_def bindF_eq_Inr split: option.splits if_splits
      dest!: Process_block_fields)

lemma Process_steps_view:
  assumes "traverse (Process_step env) cs = Inr cs'"
  shows "map blocksize cs' = map blocksize cs" and "map input_buf cs' = map input_buf cs"
proof -
  from traverse_InrD [OF assms] have len: "length cs' = length cs"
    and el: "\<forall>i<length cs. Process_step env (cs ! i) = Inr (cs' ! i)" by simp_all
  have v: "input_buf (cs' ! i) = input_buf (cs ! i) \<and> blocksize (cs' ! i) = blocksize (cs ! i)"
    if "i < length cs" for i
  proof -
    from el that have "Process_step env (cs ! i) = Inr (cs' ! i)" by blast
    then show ?thesis by (rule Process_step_view)
  qed
  show "map blocksize cs' = map blocksize cs"
    by (rule nth_equalityI) (simp_all add: len v)
  show "map input_buf cs' = map input_buf cs"
    by (rule nth_equalityI) (simp_all add: len v)
qed

text \<open>
  The routing of a tick that returns, with indices of \<open>uint_t\<close> that do not wrap around.
\<close>

lemma Convolve_routing_Inr:
  assumes "Convolve env m inbuf outbuf ic oc = Inr (m', out')"
    and "length (convolvers m) \<le> 2 ^ 32"
    and "list_all (\<lambda>c. unat (blocksize c) * unat ic \<le> 2 ^ 32
                      \<and> unat (blocksize c) * unat oc \<le> 2 ^ 32) (convolvers m)"
  shows "length (convolvers m') = length (convolvers m)
     \<and> (\<forall>i<length (convolvers m). input_buf (convolvers m' ! i)
            = map (\<lambda>n. inbuf ! (n * unat ic + i div unat oc))
                [0..<unat (blocksize (convolvers m' ! i))])
     \<and> out' = foldl (mix_step (convolvers m') (unat oc) (audioscale m)) outbuf
                 [0..<length (convolvers m)]"
proof -
  define N where "N = length (convolvers m)"
  from assms(1) obtain m1 cs where
    s: "foldM (Convolve_start ic oc inbuf) [0..<N] m = Inr m1"
    and t: "traverse (Process_step env) (convolvers m1) = Inr cs"
    and e: "foldM (Convolve_end oc) [0..<N]
              (m1\<lparr>convolvers := cs, updateparameters := False\<rparr>, outbuf) = Inr (m', out')"
    by (auto simp: Convolve_def bindF_eq_Inr N_def)
  have la: "list_all (\<lambda>b. unat b * unat ic \<le> 2 ^ 32) (map blocksize (convolvers m))"
    using assms(3) by (simp add: list_all_length)
  from Convolve_start_loop [OF s _ assms(2) la] have
    b1: "map blocksize (convolvers m1) = map blocksize (convolvers m)"
    and a1: "audioscale m1 = audioscale m"
    and i1: "\<forall>j<N. input_buf (convolvers m1 ! j)
                 = map (\<lambda>k. inbuf ! (k * unat ic + j div unat oc))
                     [0..<unat (blocksize (convolvers m ! j))]"
    by (simp_all add: N_def)
  note pv = Process_steps_view [OF t]
  have l1: "length (convolvers m1) = N"
    using map_eq_imp_length_eq [OF b1] by (simp add: N_def)
  have lc: "length cs = N"
    using map_eq_imp_length_eq [OF pv(1)] l1 by simp
  have bc: "blocksize (cs ! j) = blocksize (convolvers m ! j)" if "j < N" for j
    using map_eq_nth [OF pv(1), of j] map_eq_nth [OF b1, of j] that lc l1 by simp
  have ic: "input_buf (cs ! j) = input_buf (convolvers m1 ! j)" if "j < N" for j
    using map_eq_nth [OF pv(2), of j] that lc by simp
  let ?m4 = "m1\<lparr>convolvers := cs, updateparameters := False\<rparr>"
  have lb: "list_all (\<lambda>c. unat (blocksize c) * unat oc \<le> 2 ^ 32) (convolvers ?m4)"
    using assms(3) bc lc by (simp add: list_all_length N_def)
  have "N \<le> length (convolvers ?m4)" "length (convolvers ?m4) \<le> 2 ^ 32"
    using lc assms(2) by (simp_all add: N_def)
  from Convolve_end_loop [OF e this lb] have
    o: "out' = foldl (mix_step cs (unat oc) (audioscale m)) outbuf [0..<N]"
    and v: "map worker_view (convolvers m') = map worker_view cs"
    by (simp_all add: a1)
  have lm: "length (convolvers m') = N"
    using map_eq_imp_length_eq [OF v] lc by simp
  have vj: "worker_view (convolvers m' ! j) = worker_view (cs ! j)" if "j < N" for j
    using map_eq_nth [OF v, of j] that lm by simp
  have inp: "input_buf (convolvers m' ! i)
            = map (\<lambda>n. inbuf ! (n * unat ic + i div unat oc))
                [0..<unat (blocksize (convolvers m' ! i))]" if "i < N" for i
  proof -
    from vj [OF that] have "input_buf (convolvers m' ! i) = input_buf (cs ! i)"
      "blocksize (convolvers m' ! i) = blocksize (cs ! i)"
      by (simp_all add: worker_view_def)
    with ic [OF that] bc [OF that] i1 that show ?thesis by simp
  qed
  have "foldl (mix_step cs (unat oc) (audioscale m)) outbuf [0..<N]
        = foldl (mix_step (convolvers m') (unat oc) (audioscale m)) outbuf [0..<N]"
  proof (rule foldl_cong [OF refl refl])
    fix a x
    assume "x \<in> set [0..<N]"
    then have "x < length cs" using lc by simp
    from mix_step_view [OF v [symmetric] this]
    show "mix_step cs (unat oc) (audioscale m) a x
          = mix_step (convolvers m') (unat oc) (audioscale m) a x" .
  qed
  with o lm inp show ?thesis by (simp add: N_def)
qed

section \<open>A tick returns\<close>

lemma Process_step_idle:
  assumes "\<not> startsignal c"
  shows "Process_step env c = Inr c"
  using assms by (simp add: Process_step_def split: option.splits)

lemma Process_step_returns:
  assumes "startsignal c \<Longrightarrow> worker_runs env c"
    and "zeroblocks c < maxzeroblocks c \<Longrightarrow> startsignal c"
  shows "\<exists>c'. Process_step env c = Inr c' \<and> blocksize c' = blocksize c
     \<and> (zeroblocks c' < maxzeroblocks c'
          \<longrightarrow> donesignal c' \<and> length (output_buf c') = unat (blocksize c'))"
proof (cases "startsignal c")
  case True
  with assms(1) have r: "worker_runs env c" by blast
  then obtain l where t: "thread c = Some l"
    and f: "frame_ok env (blocksize c) l"
    and nq: "\<not> quitthread c"
    by (auto simp: worker_runs_def split: option.splits)
  define c0 where "c0 = c\<lparr>startsignal := False\<rparr>"
  have f0: "frame_ok env (blocksize c0) l" using f by (simp add: c0_def)
  have h: "\<not> hqproc c0 \<Longrightarrow>
         list_all (\<lambda>n. - 1 < interpolate (blocksize c0)
                (round_double (real (unat (delaypos l)) + real (unat (delaylen l)) - delay1 l))
                (round_double (real (unat (delaypos l)) + real (unat (blocksize c0))
                   + real (unat (delaylen l))
                   - min (outputdelay c0) (real (unat (maxdelay l))))) n
            \<and> interpolate (blocksize c0)
                (round_double (real (unat (delaypos l)) + real (unat (delaylen l)) - delay1 l))
                (round_double (real (unat (delaypos l)) + real (unat (blocksize c0))
                   + real (unat (delaylen l))
                   - min (outputdelay c0) (real (unat (maxdelay l))))) n < 2 ^ 32)
           [0..<unat (blocksize c0)]"
    using r t by (simp add: worker_runs_def c0_def)
  from Process_block_Inr [OF f0 h] obtain c' l' where
    pb: "Process_block env c0 l = Inr (c', l')"
    and lo: "length (output_buf c') = unat (blocksize c0)"
    unfolding Let_def by blast
  note fl = Process_block_fields [OF pb]
  have "Process_step env c = Inr (c'\<lparr>thread := Some l', donesignal := True\<rparr>)"
    by (rule Process_step_Inr [OF t True nq]) (simp add: pb [unfolded c0_def])
  then show ?thesis using fl lo by (simp add: c0_def)
next
  case False
  with assms(2) have "\<not> zeroblocks c < maxzeroblocks c" by blast
  then show ?thesis using Process_step_idle [OF False, of env] by simp
qed

lemma Process_steps_return:
  assumes "list_all (\<lambda>c. (startsignal c \<longrightarrow> worker_runs env c)
                      \<and> (zeroblocks c < maxzeroblocks c \<longrightarrow> startsignal c)) cs"
  shows "\<exists>cs'. traverse (Process_step env) cs = Inr cs'
     \<and> map blocksize cs' = map blocksize cs
     \<and> list_all (\<lambda>c. zeroblocks c < maxzeroblocks c
                      \<longrightarrow> donesignal c \<and> length (output_buf c) = unat (blocksize c)) cs'"
  using assms
proof (induction cs)
  case Nil
  then show ?case by simp
next
  case (Cons c cs)
  from Cons.prems have r: "startsignal c \<Longrightarrow> worker_runs env c"
    and s: "zeroblocks c < maxzeroblocks c \<Longrightarrow> startsignal c"
    and rest: "list_all (\<lambda>c. (startsignal c \<longrightarrow> worker_runs env c)
                      \<and> (zeroblocks c < maxzeroblocks c \<longrightarrow> startsignal c)) cs"
    by simp_all
  from Process_step_returns [OF r s] obtain c' where
    1: "Process_step env c = Inr c'" "blocksize c' = blocksize c"
    "zeroblocks c' < maxzeroblocks c'
       \<longrightarrow> donesignal c' \<and> length (output_buf c') = unat (blocksize c')"
    by blast
  from Cons.IH [OF rest] obtain cs' where
    2: "traverse (Process_step env) cs = Inr cs'" "map blocksize cs' = map blocksize cs"
    "list_all (\<lambda>c. zeroblocks c < maxzeroblocks c
                      \<longrightarrow> donesignal c \<and> length (output_buf c) = unat (blocksize c)) cs'"
    by blast
  from 1 2 show ?case by simp
qed

lemma EndConvolution_returns:
  assumes "zeroblocks c < maxzeroblocks c
           \<Longrightarrow> donesignal c \<and> length (output_buf c) = unat (blocksize c)"
    and "ch < unat oc" and "unat (blocksize c) * unat oc \<le> 2 ^ 32"
    and "unat (blocksize c) * unat oc \<le> length buf"
  shows "\<exists>c' b. EndConvolution c buf ch oc lvl = Inr (c', b) \<and> length b = length buf
     \<and> blocksize c' = blocksize c"
proof (cases "zeroblocks c < maxzeroblocks c")
  case True
  with assms(1) have d: "donesignal c" and lo: "length (output_buf c) = unat (blocksize c)"
    by simp_all
  have k: "ch + unat ((word_of_nat i :: uint_t) * oc) < length buf"
    if "i < unat (blocksize c)" for i
  proof -
    have "Suc i * unat oc \<le> unat (blocksize c) * unat oc"
      using that by (intro mult_le_mono1) simp
    then have "ch + i * unat oc < length buf" using assms(2,4) by simp
    then show ?thesis by (simp only: unat_word_of_nat_mult [OF that assms(3)])
  qed
  have "\<exists>b. foldM (\<lambda>i b. let k = ch + unat ((word_of_nat i :: uint_t) * oc)
                           in if k < length b \<and> i < length (output_buf c)
                              then Inr (b[k := b ! k + output_buf c ! i * lvl])
                              else Inl OutOfBounds)
               [0..<unat (blocksize c)] buf = Inr b \<and> length b = length buf"
    by (rule foldM_Inr_ex) (simp_all add: Let_def k lo)
  then show ?thesis using True d by (auto simp: EndConvolution_def)
next
  case False
  then show ?thesis by (simp add: EndConvolution_def)
qed

lemma Convolve_end_returns:
  assumes "n \<le> length cs" and "length cs \<le> 2 ^ 32" and "0 < unat oc"
    and "convolvers m = cs"
    and "list_all (\<lambda>c. (zeroblocks c < maxzeroblocks c
                          \<longrightarrow> donesignal c \<and> length (output_buf c) = unat (blocksize c))
                      \<and> unat (blocksize c) * unat oc \<le> 2 ^ 32
                      \<and> unat (blocksize c) * unat oc \<le> length out) cs"
  shows "\<exists>cs' out'. foldM (Convolve_end oc) [0..<n] (m, out) = Inr (m\<lparr>convolvers := cs'\<rparr>, out')
     \<and> length out' = length out \<and> length cs' = length cs
     \<and> (\<forall>j. n \<le> j \<and> j < length cs \<longrightarrow> cs' ! j = cs ! j)"
  using assms(1)
proof (induction n)
  case 0
  have "m = m\<lparr>convolvers := cs\<rparr>" using assms(4) by simp
  then show ?case by (intro exI [of _ cs] exI [of _ out]) simp
next
  case (Suc n)
  then have n: "n < length cs" "n \<le> length cs" by simp_all
  from Suc.IH [OF n(2)] obtain cs' out' where
    1: "foldM (Convolve_end oc) [0..<n] (m, out) = Inr (m\<lparr>convolvers := cs'\<rparr>, out')"
    and 2: "length out' = length out" "length cs' = length cs"
    and 3: "\<forall>j. n \<le> j \<and> j < length cs \<longrightarrow> cs' ! j = cs ! j"
    by blast
  from 3 n have same: "cs' ! n = cs ! n" by simp
  from assms(5) n(1) have q: "zeroblocks (cs ! n) < maxzeroblocks (cs ! n)
      \<Longrightarrow> donesignal (cs ! n) \<and> length (output_buf (cs ! n)) = unat (blocksize (cs ! n))"
    and b1: "unat (blocksize (cs ! n)) * unat oc \<le> 2 ^ 32"
    and b2: "unat (blocksize (cs ! n)) * unat oc \<le> length out'"
    by (simp_all add: list_all_length 2)
  have n32: "n < 2 ^ 32" using n(1) assms(2) by simp
  have ch: "unat ((word_of_nat n :: uint_t) mod oc) = n mod unat oc"
    by (simp only: unat_mod unat_word_of_nat_small [OF n32])
  have chl: "n mod unat oc < unat oc" using assms(3) by simp
  from EndConvolution_returns [OF q chl b1 b2, of "audioscale m"] obtain c' b where
    e: "EndConvolution (cs ! n) out' (n mod unat oc) oc (audioscale m) = Inr (c', b)"
    and lb: "length b = length out'"
    by blast
  have oc: "oc \<noteq> 0" using assms(3) by (simp add: unat_gt_0)
  have "Convolve_end oc n (m\<lparr>convolvers := cs'\<rparr>, out')
        = Inr (m\<lparr>convolvers := cs'[n := c']\<rparr>, b)"
    using oc e by (simp add: Convolve_end_def ch same)
  with 1 have "foldM (Convolve_end oc) [0..<Suc n] (m, out)
               = Inr (m\<lparr>convolvers := cs'[n := c']\<rparr>, b)"
    by (simp add: foldM_snoc)
  moreover have "\<forall>j. Suc n \<le> j \<and> j < length cs \<longrightarrow> cs'[n := c'] ! j = cs ! j"
    using 3 by simp
  ultimately show ?case using lb 2 by (intro exI [of _ "cs'[n := c']"] exI [of _ b]) simp
qed


lemma UpdateConvolverParameters_shape:
  assumes "i < length (convolvers m)" and "i < 2 ^ 32" and "i < length (parameters m)"
  shows "\<exists>c. UpdateConvolverParameters m (word_of_nat i)
               = Inr (m\<lparr>convolvers := (convolvers m)[i := c]\<rparr>)
     \<and> blocksize c = blocksize (convolvers m ! i)"
proof -
  have u: "unat (word_of_nat i :: uint_t) = i" by (rule unat_word_of_nat_small [OF assms(2)])
  define p where "p = parameters m ! i"
  define ir where "ir = unat (irindex p)"
  define w where "w = convolvers m ! i"
  show ?thesis
  proof (cases "ir < length (filters m)")
    case True
    define od where "od = (if ir < length (irdelays m)
                  then snd (irdelays m ! ir) + fst (irdelays m ! ir) * delayscale m
                  else 0) + delay p"
    define c where "c = w\<lparr>filter_ptr := Some ir, outputlevel := level p,
                          outputdelay := od, hqproc := m_hqproc m\<rparr>"
    have h: "unat (word_of_nat i :: uint_t) < length (convolvers m)"
      "unat (word_of_nat i :: uint_t) < length (parameters m)"
      "unat (irindex (parameters m ! unat (word_of_nat i :: uint_t))) < length (filters m)"
      using assms(1,3) True by (simp_all add: u ir_def p_def)
    have e: "UpdateConvolverParameters m (word_of_nat i)
             = Inr (m\<lparr>convolvers := (convolvers m)[i := c]\<rparr>)"
      unfolding UpdateConvolverParameters_Inr [OF h]
      by (simp add: u c_def od_def w_def ir_def p_def)
    moreover have "blocksize c = blocksize (convolvers m ! i)" by (simp add: c_def w_def)
    ultimately show ?thesis by blast
  next
    case False
    then have "UpdateConvolverParameters m (word_of_nat i) = Inr m"
      using assms(1,3) by (simp add: UpdateConvolverParameters_def Let_def u ir_def p_def)
    moreover have "m = m\<lparr>convolvers := (convolvers m)[i := convolvers m ! i]\<rparr>" by simp
    ultimately have "UpdateConvolverParameters m (word_of_nat i)
               = Inr (m\<lparr>convolvers := (convolvers m)[i := convolvers m ! i]\<rparr>)" by simp
    then show ?thesis by blast
  qed
qed

lemma Convolve_start_returns:
  assumes "i < length (convolvers m)" and "i < 2 ^ 32" and "0 < unat oc"
    and "updateparameters m \<Longrightarrow> i < length (parameters m)"
    and "i div unat oc < unat ic"
    and "unat (blocksize (convolvers m ! i)) * unat ic \<le> 2 ^ 32"
    and "unat (blocksize (convolvers m ! i)) * unat ic \<le> length inbuf"
  shows "\<exists>c'. Convolve_start ic oc inbuf i m = Inr (m\<lparr>convolvers := (convolvers m)[i := c']\<rparr>)
     \<and> (zeroblocks c' < maxzeroblocks c' \<longrightarrow> startsignal c')
     \<and> blocksize c' = blocksize (convolvers m ! i)"
proof -
  have "\<exists>c. (if updateparameters m then UpdateConvolverParameters m (word_of_nat i) else Inr m)
               = Inr (m\<lparr>convolvers := (convolvers m)[i := c]\<rparr>)
     \<and> blocksize c = blocksize (convolvers m ! i)"
  proof (cases "updateparameters m")
    case True
    then show ?thesis
      using UpdateConvolverParameters_shape [OF assms(1,2) assms(4)] by simp
  next
    case False
    have "m = m\<lparr>convolvers := (convolvers m)[i := convolvers m ! i]\<rparr>" by simp
    then have "Inr m = Inr (m\<lparr>convolvers := (convolvers m)[i := convolvers m ! i]\<rparr>)"
      by simp
    with False show ?thesis by (simp del: list_update_id) blast
  qed
  then obtain c0 where
    up: "(if updateparameters m then UpdateConvolverParameters m (word_of_nat i) else Inr m)
               = Inr (m\<lparr>convolvers := (convolvers m)[i := c0]\<rparr>)"
    and b0: "blocksize c0 = blocksize (convolvers m ! i)"
    by blast
  define off where "off = i div unat oc"
  have u: "unat (word_of_nat i :: uint_t) = i" by (rule unat_word_of_nat_small [OF assms(2)])
  have offw: "unat ((word_of_nat i :: uint_t) div oc) = off"
    by (simp only: unat_div u off_def)
  have k: "off + unat ((word_of_nat n :: uint_t) * ic) < length inbuf"
    if "n < unat (blocksize c0)" for n
  proof -
    have "Suc n * unat ic \<le> unat (blocksize c0) * unat ic"
      using that by (intro mult_le_mono1) simp
    then have "off + n * unat ic < length inbuf"
      using assms(5,7) by (simp add: off_def b0)
    then show ?thesis
      by (simp only: unat_word_of_nat_mult [OF that assms(6) [folded b0]])
  qed
  have "list_all (\<lambda>n. off + unat ((word_of_nat n :: uint_t) * ic) < length inbuf)
          [0..<unat (blocksize c0)]"
    by (simp add: list_all_iff k)
  note st = StartConvolution_Inr [OF this]
  define c' where "c' = (let inp = map (\<lambda>i. inbuf ! (off + unat ((word_of_nat i :: uint_t) * ic)))
                      [0..<unat (blocksize c0)];
              zb = (if list_ex (\<lambda>x. x \<noteq> 0) inp then 0
                    else if zeroblocks c0 < maxzeroblocks c0 then zeroblocks c0 + 1
                    else zeroblocks c0)
          in c0\<lparr>input_buf := inp, zeroblocks := zb,
               startsignal := (if zb < maxzeroblocks c0 then True else startsignal c0)\<rparr>)"
  have st': "StartConvolution c0 inbuf off ic = Inr c'" using st by (simp add: c'_def)
  have oc: "oc \<noteq> 0" using assms(3) by (simp add: unat_gt_0)
  have "Convolve_start ic oc inbuf i m = Inr (m\<lparr>convolvers := (convolvers m)[i := c']\<rparr>)"
    unfolding Convolve_start_def up bindF_Inr using oc assms(1)
    by (simp add: offw st')
  moreover have "zeroblocks c' < maxzeroblocks c' \<longrightarrow> startsignal c'"
    by (simp add: c'_def Let_def)
  moreover have "blocksize c' = blocksize (convolvers m ! i)"
    using b0 by (simp add: c'_def Let_def)
  ultimately show ?thesis by blast
qed

text \<open>The start of a worker reads nothing of the other workers.\<close>

lemma UpdateConvolverParameters_local:
  assumes "i < length (convolvers m)" and "i < 2 ^ 32"
    and "length cs = length (convolvers m)" and "cs ! i = convolvers m ! i"
    and "UpdateConvolverParameters m (word_of_nat i)
           = Inr (m\<lparr>convolvers := (convolvers m)[i := c]\<rparr>)"
  shows "UpdateConvolverParameters (m\<lparr>convolvers := cs\<rparr>) (word_of_nat i)
           = Inr (m\<lparr>convolvers := cs[i := c]\<rparr>)"
proof -
  have u: "unat (word_of_nat i :: uint_t) = i" by (rule unat_word_of_nat_small [OF assms(2)])
  from assms(5) have "convolvers (m\<lparr>convolvers := (convolvers m)[i := c]\<rparr>) ! i
      = (case UpdateConvolverParameters m (word_of_nat i) of Inl e \<Rightarrow> c | Inr m1 \<Rightarrow> convolvers m1 ! i)"
    by simp
  then have c: "c = (case UpdateConvolverParameters m (word_of_nat i) of
                       Inl e \<Rightarrow> c | Inr m1 \<Rightarrow> convolvers m1 ! i)"
    using assms(1) by simp
  from assms(5) have pl: "i < length (parameters m)"
    using assms(1) by (auto simp: UpdateConvolverParameters_def u split: if_splits)
  show ?thesis
  proof (cases "unat (irindex (parameters m ! i)) < length (filters m)")
    case True
    have "c = SetParameters (SetFilter (convolvers m ! i) (unat (irindex (parameters m ! i))))
               (level (parameters m ! i))
               ((if unat (irindex (parameters m ! i)) < length (irdelays m)
                 then snd (irdelays m ! unat (irindex (parameters m ! i)))
                      + fst (irdelays m ! unat (irindex (parameters m ! i))) * delayscale m
                 else 0) + delay (parameters m ! i)) (m_hqproc m)"
      using c True pl assms(1)
      by (simp add: UpdateConvolverParameters_def u Let_def)
    then show ?thesis
      using True pl assms(1,3,4)
      by (simp add: UpdateConvolverParameters_def u Let_def)
  next
    case False
    then have "c = convolvers m ! i"
      using c pl assms(1) by (simp add: UpdateConvolverParameters_def u Let_def)
    then have "cs[i := c] = cs" using assms(4) list_update_id [of cs i] by simp
    then show ?thesis
      using False pl assms(1,3)
      by (simp add: UpdateConvolverParameters_def u Let_def)
  qed
qed

lemma UpdateConvolverParameters_form:
  assumes "UpdateConvolverParameters m cv = Inr m0" and "unat cv < length (convolvers m)"
  shows "m0 = m\<lparr>convolvers := (convolvers m)[unat cv := convolvers m0 ! unat cv]\<rparr>"
  using assms by (auto simp: UpdateConvolverParameters_def Let_def split: if_splits)

lemma Convolve_start_local:
  assumes "i < length (convolvers m)" and "i < 2 ^ 32"
    and "length cs = length (convolvers m)" and "cs ! i = convolvers m ! i"
    and "Convolve_start ic oc inbuf i m = Inr (m\<lparr>convolvers := (convolvers m)[i := c']\<rparr>)"
  shows "Convolve_start ic oc inbuf i (m\<lparr>convolvers := cs\<rparr>)
           = Inr (m\<lparr>convolvers := cs[i := c']\<rparr>)"
proof -
  from assms(5) obtain m0 c where
    up: "(if updateparameters m then UpdateConvolverParameters m (word_of_nat i) else Inr m)
           = Inr m0"
    and oc: "oc \<noteq> 0"
    and st: "StartConvolution (convolvers m0 ! i) inbuf
               (unat ((word_of_nat i :: uint_t) div oc)) ic = Inr c"
    and m1: "m\<lparr>convolvers := (convolvers m)[i := c']\<rparr> = m0\<lparr>convolvers := (convolvers m0)[i := c]\<rparr>"
    by (auto simp: Convolve_start_def bindF_eq_Inr split: if_splits)
  have u: "unat (word_of_nat i :: uint_t) = i" by (rule unat_word_of_nat_small [OF assms(2)])
  define c0 where "c0 = convolvers m0 ! i"
  have m0: "m0 = m\<lparr>convolvers := (convolvers m)[i := c0]\<rparr>"
  proof (cases "updateparameters m")
    case True
    with up have "UpdateConvolverParameters m (word_of_nat i) = Inr m0" by simp
    from UpdateConvolverParameters_form [OF this] assms(1) show ?thesis
      by (simp add: u c0_def)
  next
    case False
    with up show ?thesis by (auto simp: c0_def)
  qed
  have "convolvers (m\<lparr>convolvers := (convolvers m)[i := c']\<rparr>) ! i
        = convolvers (m0\<lparr>convolvers := (convolvers m0)[i := c]\<rparr>) ! i"
    by (simp only: m1)
  then have cc: "c' = c" using assms(1) by (simp add: m0)
  have up': "(if updateparameters (m\<lparr>convolvers := cs\<rparr>)
              then UpdateConvolverParameters (m\<lparr>convolvers := cs\<rparr>) (word_of_nat i)
              else Inr (m\<lparr>convolvers := cs\<rparr>))
           = Inr (m\<lparr>convolvers := cs[i := c0]\<rparr>)"
  proof (cases "updateparameters m")
    case True
    with up have "UpdateConvolverParameters m (word_of_nat i)
                  = Inr (m\<lparr>convolvers := (convolvers m)[i := c0]\<rparr>)"
      by (simp add: m0 [symmetric])
    from UpdateConvolverParameters_local [OF assms(1-4) this] True show ?thesis by simp
  next
    case False
    with up have "m0 = m" by simp
    then have "c0 = convolvers m ! i" by (simp add: c0_def)
    then have "cs[i := c0] = cs" using assms(4) list_update_id [of cs i] by simp
    with False show ?thesis by simp
  qed
  have i: "i < length cs" using assms(1,3) by simp
  show ?thesis
    unfolding Convolve_start_def up' bindF_Inr
    using oc st i by (simp add: c0_def [symmetric] cc)
qed

lemma Convolve_start_loop_returns:
  assumes "n \<le> length cs" and "length cs \<le> 2 ^ 32" and "0 < unat oc"
    and "convolvers m = cs"
    and "updateparameters m \<Longrightarrow> length cs \<le> length (parameters m)"
    and "length cs \<le> unat ic * unat oc"
    and "list_all (\<lambda>c. unat (blocksize c) * unat ic \<le> 2 ^ 32
                      \<and> unat (blocksize c) * unat ic \<le> length inbuf) cs"
  shows "\<exists>cs'. foldM (Convolve_start ic oc inbuf) [0..<n] m = Inr (m\<lparr>convolvers := cs'\<rparr>)
     \<and> length cs' = length cs
     \<and> (\<forall>j<length cs. blocksize (cs' ! j) = blocksize (cs ! j))
     \<and> (\<forall>j<n. tick_worker ic oc inbuf m j = cs' ! j
                \<and> (zeroblocks (cs' ! j) < maxzeroblocks (cs' ! j) \<longrightarrow> startsignal (cs' ! j)))
     \<and> (\<forall>j. n \<le> j \<and> j < length cs \<longrightarrow> cs' ! j = cs ! j)"
  using assms(1)
proof (induction n)
  case 0
  have "m = m\<lparr>convolvers := cs\<rparr>" using assms(4) by simp
  then show ?case by (intro exI [of _ cs]) simp
next
  case (Suc n)
  then have n: "n < length cs" "n \<le> length cs" by simp_all
  from Suc.IH [OF n(2)] obtain cs' where
    1: "foldM (Convolve_start ic oc inbuf) [0..<n] m = Inr (m\<lparr>convolvers := cs'\<rparr>)"
    and 2: "length cs' = length cs"
    and 3: "\<forall>j<length cs. blocksize (cs' ! j) = blocksize (cs ! j)"
    and 4: "\<forall>j<n. tick_worker ic oc inbuf m j = cs' ! j
                \<and> (zeroblocks (cs' ! j) < maxzeroblocks (cs' ! j) \<longrightarrow> startsignal (cs' ! j))"
    and 5: "\<forall>j. n \<le> j \<and> j < length cs \<longrightarrow> cs' ! j = cs ! j"
    by blast
  from 5 n have same: "cs' ! n = convolvers m ! n" by (simp add: assms(4))
  have h: "n < length (convolvers m)" "n < 2 ^ 32"
    "updateparameters m \<Longrightarrow> n < length (parameters m)"
    "length cs' = length (convolvers m)"
    using n assms(2,4,5) 2 by simp_all
  have "n < unat ic * unat oc" using n(1) assms(6) by simp
  then have d: "n div unat oc < unat ic"
    using assms(3) by (simp add: div_less_iff_less_mult)
  have b: "unat (blocksize (convolvers m ! n)) * unat ic \<le> 2 ^ 32"
    "unat (blocksize (convolvers m ! n)) * unat ic \<le> length inbuf"
    using assms(7) n(1) by (simp_all add: assms(4) list_all_length)
  from Convolve_start_returns [OF h(1,2) assms(3) h(3) d b] obtain c' where
    s: "Convolve_start ic oc inbuf n m = Inr (m\<lparr>convolvers := (convolvers m)[n := c']\<rparr>)"
    and r: "zeroblocks c' < maxzeroblocks c' \<longrightarrow> startsignal c'"
      "blocksize c' = blocksize (convolvers m ! n)"
    by blast
  have tw: "tick_worker ic oc inbuf m n = c'"
    using h(1) by (simp add: tick_worker_def s)
  note loc = Convolve_start_local [OF h(1,2,4) same s]
  have "foldM (Convolve_start ic oc inbuf) [0..<Suc n] m
        = Inr (m\<lparr>convolvers := cs'[n := c']\<rparr>)"
    using 1 loc by (simp add: foldM_snoc)
  moreover have "\<forall>j<length cs. blocksize (cs'[n := c'] ! j) = blocksize (cs ! j)"
    using 3 r(2) 2 n(1) by (auto simp: nth_list_update assms(4))
  moreover have "\<forall>j<Suc n. tick_worker ic oc inbuf m j = cs'[n := c'] ! j
                \<and> (zeroblocks (cs'[n := c'] ! j) < maxzeroblocks (cs'[n := c'] ! j)
                     \<longrightarrow> startsignal (cs'[n := c'] ! j))"
    using 4 r(1) tw n(1) 2 by (auto simp: nth_list_update less_Suc_eq)
  moreover have "\<forall>j. Suc n \<le> j \<and> j < length cs \<longrightarrow> cs'[n := c'] ! j = cs ! j"
    using 5 by simp
  ultimately show ?case using 2 by (intro exI [of _ "cs'[n := c']"]) simp
qed

lemma Convolve_returns:
  assumes "length (convolvers m) \<le> 2 ^ 32"
    and "length (convolvers m) \<le> unat ic * unat oc"
    and "updateparameters m \<Longrightarrow> length (convolvers m) \<le> length (parameters m)"
    and "list_all (\<lambda>i. startsignal (tick_worker ic oc inbuf m i)
                      \<longrightarrow> worker_runs env (tick_worker ic oc inbuf m i))
           [0..<length (convolvers m)]"
    and "list_all (\<lambda>c. unat (blocksize c) * unat ic \<le> 2 ^ 32
                      \<and> unat (blocksize c) * unat ic \<le> length inbuf
                      \<and> unat (blocksize c) * unat oc \<le> 2 ^ 32
                      \<and> unat (blocksize c) * unat oc \<le> length outbuf) (convolvers m)"
  shows "\<exists>m' out'. Convolve env m inbuf outbuf ic oc = Inr (m', out')"
proof (cases "convolvers m = []")
  case True
  then show ?thesis by (simp add: Convolve_def)
next
  case False
  define cs where "cs = convolvers m"
  define N where "N = length cs"
  have "0 < N" using False by (simp add: N_def cs_def)
  with assms(2) have oc: "0 < unat oc"
    by (cases "unat oc = 0") (simp_all add: N_def cs_def)
  have b1: "list_all (\<lambda>c. unat (blocksize c) * unat ic \<le> 2 ^ 32
                      \<and> unat (blocksize c) * unat ic \<le> length inbuf) cs"
    using assms(5) by (simp add: list_all_length cs_def)
  from Convolve_start_loop_returns [of N cs oc m ic inbuf]
    assms(1-3) oc b1
  obtain cs1 where
    s: "foldM (Convolve_start ic oc inbuf) [0..<N] m = Inr (m\<lparr>convolvers := cs1\<rparr>)"
    and l1: "length cs1 = length cs"
    and bs1: "\<forall>j<length cs. blocksize (cs1 ! j) = blocksize (cs ! j)"
    and r1: "\<forall>j<N. tick_worker ic oc inbuf m j = cs1 ! j
                \<and> (zeroblocks (cs1 ! j) < maxzeroblocks (cs1 ! j) \<longrightarrow> startsignal (cs1 ! j))"
    unfolding cs_def [symmetric] N_def by blast
  have "list_all (\<lambda>c. (startsignal c \<longrightarrow> worker_runs env c)
                      \<and> (zeroblocks c < maxzeroblocks c \<longrightarrow> startsignal c)) cs1"
    using r1 l1 assms(4) by (simp add: list_all_length N_def cs_def)
  from Process_steps_return [OF this] obtain cs2 where
    p: "traverse (Process_step env) cs1 = Inr cs2"
    and bs2: "map blocksize cs2 = map blocksize cs1"
    and q2: "list_all (\<lambda>c. zeroblocks c < maxzeroblocks c
                      \<longrightarrow> donesignal c \<and> length (output_buf c) = unat (blocksize c)) cs2"
    by blast
  have l2: "length cs2 = length cs" using map_eq_imp_length_eq [OF bs2] l1 by simp
  have b2: "blocksize (cs2 ! j) = blocksize (cs ! j)" if "j < length cs" for j
    using map_eq_nth [OF bs2, of j] bs1 that l1 l2 by simp
  define m2 where "m2 = m\<lparr>convolvers := cs1\<rparr>\<lparr>convolvers := cs2, updateparameters := False\<rparr>"
  have e5: "list_all (\<lambda>c. (zeroblocks c < maxzeroblocks c
                          \<longrightarrow> donesignal c \<and> length (output_buf c) = unat (blocksize c))
                      \<and> unat (blocksize c) * unat oc \<le> 2 ^ 32
                      \<and> unat (blocksize c) * unat oc \<le> length outbuf) cs2"
    using q2 assms(5) b2 l2 by (simp add: list_all_length cs_def)
  have e12: "N \<le> length cs2" "length cs2 \<le> 2 ^ 32" "convolvers m2 = cs2"
    using l2 assms(1) by (simp_all add: N_def cs_def m2_def)
  from Convolve_end_returns [OF e12(1,2) oc e12(3) e5] obtain cs3 out' where
    e: "foldM (Convolve_end oc) [0..<N] (m2, outbuf) = Inr (m2\<lparr>convolvers := cs3\<rparr>, out')"
    by blast
  have "Convolve env m inbuf outbuf ic oc = Inr (m2\<lparr>convolvers := cs3\<rparr>, out')"
    unfolding Convolve_def cs_def [symmetric] N_def [symmetric] s bindF_Inr
    using p e by (simp add: m2_def)
  then show ?thesis by blast
qed


lemma example_Start:
  "StartConvolution (SetParameters example_worker (1 / 2) 1 False) [3, 4] 0 1
     = Inr example_worker_busy"
proof -
  have "list_all (\<lambda>i. 0 + unat ((word_of_nat i :: uint_t) * 1) < length [3, 4 :: real])
      [0..<unat (blocksize (SetParameters example_worker (1 / 2) 1 False))]"
    by (simp add: SetParameters_def example_worker_def upt_0_2)
  from StartConvolution_Inr [OF this] show ?thesis
    by (simp add: SetParameters_def example_worker_def example_worker_busy_def upt_0_2 Let_def)
qed

lemma example_End:
  assumes "output_buf c = [3, 9 / 4]" and "blocksize c = 2" and "zeroblocks c = 0"
    and "maxzeroblocks c = 1202" and "donesignal c"
  shows "EndConvolution c [10, 20] 0 1 2 = Inr (c\<lparr>donesignal := False\<rparr>, [16, 49 / 2])"
  using assms by (simp add: EndConvolution_def upt_0_2 Let_def)

lemma example_Convolve:
  "\<exists>m'. Convolve example_extern example_manager_busy [3, 4] [10, 20] 1 1
          = Inr (m', [16, 49 / 2])
     \<and> blocksize (convolvers m' ! 0) = 2"
proof -
  from example_Process_step obtain c' where
    p: "Process_step example_extern example_worker_busy = Inr c'"
    and f: "output_buf c' = [3, 9 / 4]" "blocksize c' = 2" "zeroblocks c' = 0"
      "maxzeroblocks c' = 1202" "donesignal c'"
    by blast
  note e = example_End [OF f]
  have l: "[0..<length (convolvers example_manager_busy)] = [0]"
    by (simp add: example_manager_busy_def)
  have s: "Convolve_start 1 1 [3, 4] 0 example_manager_busy
           = Inr (example_manager_busy\<lparr>convolvers := [example_worker_busy]\<rparr>)"
    using example_Start by (simp add: Convolve_start_def example_manager_busy_def)
  have "Convolve example_extern example_manager_busy [3, 4] [10, 20] 1 1
        = Inr (example_manager_busy\<lparr>convolvers := [c'\<lparr>donesignal := False\<rparr>],
                                     updateparameters := False\<rparr>, [16, 49 / 2])"
    unfolding Convolve_def l
    using s p e by (simp add: Convolve_end_def example_manager_busy_def)
  then show ?thesis using f(2) by simp
qed

lemma example_worker_busy_runs: "worker_runs example_extern example_worker_busy"
proof -
  let ?w = example_worker_busy and ?l = example_locals and ?e = example_extern
  have t: "thread ?w = Some ?l" "blocksize ?w = 2" "quitthread ?w = False"
    by (simp_all add: example_worker_busy_def example_worker_def)
  have "list_all (\<lambda>n. - 1 < interpolate (blocksize ?w)
                (round_double (real (unat (delaypos ?l)) + real (unat (delaylen ?l)) - delay1 ?l))
                (round_double (real (unat (delaypos ?l)) + real (unat (blocksize ?w))
                   + real (unat (delaylen ?l))
                   - min (outputdelay ?w) (real (unat (maxdelay ?l))))) n
            \<and> interpolate (blocksize ?w)
                (round_double (real (unat (delaypos ?l)) + real (unat (delaylen ?l)) - delay1 ?l))
                (round_double (real (unat (delaypos ?l)) + real (unat (blocksize ?w))
                   + real (unat (delaylen ?l))
                   - min (outputdelay ?w) (real (unat (maxdelay ?l))))) n < 2 ^ 32)
           [0..<unat (blocksize ?w)]"
    unfolding example_positions by (rule interpolate_cast [where M = 2403]) simp_all
  then show ?thesis
    unfolding worker_runs_def t using example_frame_ok by simp
qed


section \<open>A tick of a manager with one worker\<close>

lemma big_worker_new:
  "bindF (Convolver_new example_extern 4096 0 4096 1 0)
     (\<lambda>(c, errs). Inr (SetParameters (SetFilter c 0) 1 1 False, errs)) = Inr (big_worker, [])"
  by (simp add: Convolver_new_def Process_init_def example_extern_def big_worker_def
      maxadditionaldelay_def Let_def SetParameters_def SetFilter_def map_replicate_const)

lemma Convolve_one_worker:
  assumes "length (convolvers m) = 1"
    and "Convolve_start 1 1 inbuf 0 m = Inr m1"
    and "convolvers m1 = [c1]"
    and "Process_step env c1 = Inr c2"
    and "EndConvolution c2 outbuf 0 1 (audioscale m1) = Inr (c3, out)"
  shows "Convolve env m inbuf outbuf 1 1
     = Inr (m1\<lparr>convolvers := [c3], updateparameters := False\<rparr>, out)"
proof -
  have l: "[0..<length (convolvers m)] = [0]" using assms(1) by simp
  show ?thesis
    unfolding Convolve_def l using assms(2-5) by (simp add: Convolve_end_def)
qed


lemma impulse_block_facts:
  "length impulse_block = 4096" "impulse_block ! 4095 = 1" "list_ex (\<lambda>x. x \<noteq> 0) impulse_block"
proof -
  show "length impulse_block = 4096" "impulse_block ! 4095 = 1"
    by (simp_all add: impulse_block_def)
  have "(1 :: real) \<in> set impulse_block"
    unfolding impulse_block_def by (rule set_update_memI) simp
  then show "list_ex (\<lambda>x. x \<noteq> 0) impulse_block"
    unfolding list_ex_iff by (rule bexI [rotated]) simp
qed

lemma silent_block_facts:
  "length silent_block = 4096" "\<not> list_ex (\<lambda>x. x \<noteq> 0) silent_block" "silent_block ! 0 = 0"
  by (simp_all add: silent_block_def list_ex_iff)

lemma big_tick_A:
  "\<exists>m c l out. Convolve example_extern big_manager impulse_block silent_block 1 1 = Inr (m, out)
     \<and> convolvers m = [c] \<and> \<not> updateparameters m \<and> audioscale m = 1
     \<and> thread c = Some l \<and> frame_ok example_extern 4096 l
     \<and> unat (delaylen l) = 8192 \<and> unat (maxdelay l) = 4090 \<and> unat (delaypos l) = 4096
     \<and> delay1 l = 1 \<and> level1 l = 1 \<and> delaymem l ! 4095 = 1
     \<and> blocksize c = 4096 \<and> partitions c = 1 \<and> zeroblocks c = 0 \<and> maxzeroblocks c = 2
     \<and> outputdelay c = 1 \<and> outputlevel c = 1 \<and> \<not> hqproc c \<and> \<not> quitthread c
     \<and> \<not> startsignal c \<and> \<not> donesignal c \<and> length (output_buf c) = 4096"
proof -
  define l0 where "l0 = \<lparr>maxdelay = 4090, delaypos = 0, delaylen = 8192,
                      delaymem = replicate 8192 (0 :: real), level1 = 1, delay1 = 0\<rparr>"
  define c1 where
    "c1 = big_worker\<lparr>input_buf := impulse_block, zeroblocks := 0, startsignal := True\<rparr>"
  define c0 where "c0 = c1\<lparr>startsignal := False\<rparr>"
  have c0: "thread c0 = Some l0" "blocksize c0 = 4096" "partitions c0 = 1" "zeroblocks c0 = 0"
    "maxzeroblocks c0 = 2" "outputdelay c0 = 1" "outputlevel c0 = 1" "\<not> hqproc c0"
    "\<not> quitthread c0" "\<not> startsignal c0" "\<not> donesignal c0" "input_buf c0 = impulse_block"
    by (simp_all add: c0_def c1_def big_worker_def l0_def)
  have c1: "thread c1 = Some l0" "startsignal c1" "\<not> quitthread c1"
    by (simp_all add: c1_def big_worker_def l0_def)
  have bm: "convolvers big_manager = [big_worker]" "updateparameters big_manager"
    "audioscale big_manager = 1"
    by (simp_all add: big_manager_def)
  have u: "UpdateConvolverParameters big_manager 0 = Inr big_manager"
    by (simp add: UpdateConvolverParameters_def big_manager_def Let_def SetFilter_def
        SetParameters_def big_worker_def)
  have "length impulse_block = unat (blocksize big_worker)"
    by (simp add: impulse_block_facts big_worker_def)
  from StartConvolution_block [OF this]
  have st: "StartConvolution big_worker impulse_block 0 1 = Inr c1"
    by (simp add: impulse_block_facts c1_def big_worker_def)
  have cs: "Convolve_start 1 1 impulse_block 0 big_manager
            = Inr (big_manager\<lparr>convolvers := [c1]\<rparr>)"
    by (simp add: Convolve_start_def u st bm)
  have f: "frame_ok example_extern (blocksize c0) l0"
    by (simp add: frame_ok_def c0 l0_def example_extern_def)
  have p1: "round_double (real (unat (delaypos l0)) + real (unat (delaylen l0)) - delay1 l0)
            = 8192"
    using round_double_nat [of 8192] by (simp add: l0_def)
  have p2: "round_double (real (unat (delaypos l0)) + real (unat (blocksize c0))
              + real (unat (delaylen l0)) - min (outputdelay c0) (real (unat (maxdelay l0))))
            = 12287"
    using round_double_nat [of 12287] by (simp add: l0_def c0)
  have h2: "list_all (\<lambda>n. - 1 < interpolate (blocksize c0)
                (round_double (real (unat (delaypos l0)) + real (unat (delaylen l0)) - delay1 l0))
                (round_double (real (unat (delaypos l0)) + real (unat (blocksize c0))
                   + real (unat (delaylen l0))
                   - min (outputdelay c0) (real (unat (maxdelay l0))))) n
            \<and> interpolate (blocksize c0)
                (round_double (real (unat (delaypos l0)) + real (unat (delaylen l0)) - delay1 l0))
                (round_double (real (unat (delaypos l0)) + real (unat (blocksize c0))
                   + real (unat (delaylen l0))
                   - min (outputdelay c0) (real (unat (maxdelay l0))))) n < 2 ^ 32)
           [0..<unat (blocksize c0)]"
    unfolding p1 p2 by (rule interpolate_cast [where M = 12287]) simp_all
  from Process_block_Inr [OF f h2] obtain c' l' where
    pb: "Process_block example_extern c0 l0 = Inr (c', l')"
    and lo: "length (output_buf c') = unat (blocksize c0)"
    and mem: "\<forall>k<unat (delaylen l0). delaymem l' ! k =
            (if unat (delaypos l0) \<le> k \<and> k < unat (delaypos l0) + unat (blocksize c0)
             then (if zeroblocks c0 < partitions c0
                   then snd (Convolver_Convolve example_extern c0) (k - unat (delaypos l0)) else 0)
             else delaymem l0 ! k)"
    and dp: "unat (delaypos l') = (unat (delaypos l0) + unat (blocksize c0)) mod unat (delaylen l0)"
    and d1: "delay1 l' = min (outputdelay c0)
           (real (unat (delaylen l0)) - real (unat (blocksize c0)) - 1
              - real (unat (FractionalSampleAdditionalDelayRequired example_extern)))"
    and l1: "level1 l' = outputlevel c0"
    and dl: "delaylen l' = delaylen l0" and md: "maxdelay l' = maxdelay l0"
    and fr: "frame_ok example_extern (blocksize c') l'"
    unfolding Let_def by blast
  note fl = Process_block_fields [OF pb]
  have cv: "snd (Convolver_Convolve example_extern c0) 4095 = 1"
    by (simp add: Convolver_Convolve_def Let_def example_extern_def c0 impulse_block_facts
        split: option.splits)
  have m4095: "delaymem l' ! 4095 = 1"
    using mem [rule_format, of 4095] cv by (simp add: l0_def c0)
  define c2 where "c2 = c'\<lparr>thread := Some l', donesignal := True\<rparr>"
  have ps: "Process_step example_extern c1 = Inr c2"
    unfolding c2_def
    by (rule Process_step_Inr [OF c1]) (simp add: pb [unfolded c0_def])
  have c2: "zeroblocks c2 < maxzeroblocks c2" "donesignal c2"
    "length (output_buf c2) = unat (blocksize c2)" "length silent_block = unat (blocksize c2)"
    using fl lo by (simp_all add: c2_def c0 silent_block_facts)
  from EndConvolution_block [OF c2, of 1] obtain b where
    e: "EndConvolution c2 silent_block 0 1 1 = Inr (c2\<lparr>donesignal := False\<rparr>, b)" ..
  have "Convolve example_extern big_manager impulse_block silent_block 1 1
        = Inr (big_manager\<lparr>convolvers := [c1]\<rparr>
                 \<lparr>convolvers := [c2\<lparr>donesignal := False\<rparr>], updateparameters := False\<rparr>, b)"
    by (rule Convolve_one_worker [OF _ cs _ ps]) (simp_all add: bm e)
  moreover have "thread (c2\<lparr>donesignal := False\<rparr>) = Some l'"
    by (simp add: c2_def)
  moreover have "frame_ok example_extern 4096 l'"
    using fr fl by (simp add: c0)
  moreover have "unat (delaylen l') = 8192" "unat (maxdelay l') = 4090"
    "unat (delaypos l') = 4096" "delay1 l' = 1" "level1 l' = 1"
    using dp d1 l1 by (simp_all add: dl md l0_def c0 example_extern_def)
  moreover have "blocksize (c2\<lparr>donesignal := False\<rparr>) = 4096"
    "partitions (c2\<lparr>donesignal := False\<rparr>) = 1"
    "zeroblocks (c2\<lparr>donesignal := False\<rparr>) = 0"
    "maxzeroblocks (c2\<lparr>donesignal := False\<rparr>) = 2"
    "outputdelay (c2\<lparr>donesignal := False\<rparr>) = 1"
    "outputlevel (c2\<lparr>donesignal := False\<rparr>) = 1"
    "\<not> hqproc (c2\<lparr>donesignal := False\<rparr>)"
    "\<not> quitthread (c2\<lparr>donesignal := False\<rparr>)"
    "\<not> startsignal (c2\<lparr>donesignal := False\<rparr>)"
    "\<not> donesignal (c2\<lparr>donesignal := False\<rparr>)"
    "length (output_buf (c2\<lparr>donesignal := False\<rparr>)) = 4096"
    using fl lo by (simp_all add: c2_def c0)
  ultimately show ?thesis using m4095 by (simp add: bm)
qed


lemma big_tick_B:
  assumes "convolvers m = [c]" and "\<not> updateparameters m" and "audioscale m = 1"
    and "thread c = Some l" and "frame_ok example_extern 4096 l"
    and "unat (delaylen l) = 8192" and "unat (maxdelay l) = 4090"
    and "unat (delaypos l) = 4096" and "delay1 l = 1" and "level1 l = 1"
    and "delaymem l ! 4095 = 1"
    and "blocksize c = 4096" and "partitions c = 1" and "zeroblocks c = 0"
    and "maxzeroblocks c = 2" and "outputdelay c = 1" and "outputlevel c = 1"
    and "\<not> hqproc c" and "\<not> quitthread c" and "\<not> startsignal c" and "\<not> donesignal c"
    and "length (output_buf c) = 4096"
  shows "\<exists>m' c' out. Convolve example_extern m silent_block silent_block 1 1 = Inr (m', out)
     \<and> convolvers m' = [c'] \<and> \<not> updateparameters m' \<and> audioscale m' = 1
     \<and> blocksize c' = 4096 \<and> zeroblocks c' = 1 \<and> maxzeroblocks c' = 2
     \<and> \<not> startsignal c' \<and> output_buf c' ! 0 = 1"
proof -
  define c1 where
    "c1 = c\<lparr>input_buf := silent_block, zeroblocks := 1, startsignal := True\<rparr>"
  define c0 where "c0 = c1\<lparr>startsignal := False\<rparr>"
  have c0: "thread c0 = Some l" "blocksize c0 = 4096" "partitions c0 = 1" "zeroblocks c0 = 1"
    "maxzeroblocks c0 = 2" "outputdelay c0 = 1" "outputlevel c0 = 1" "\<not> hqproc c0"
    "\<not> quitthread c0" "\<not> startsignal c0" "\<not> donesignal c0"
    using assms by (simp_all add: c0_def c1_def)
  have c1: "thread c1 = Some l" "startsignal c1" "\<not> quitthread c1"
    using assms by (simp_all add: c1_def)
  have "length silent_block = unat (blocksize c)"
    by (simp add: silent_block_facts assms)
  from StartConvolution_block [OF this]
  have st: "StartConvolution c silent_block 0 1 = Inr c1"
    by (simp add: silent_block_facts c1_def assms)
  have cs: "Convolve_start 1 1 silent_block 0 m = Inr (m\<lparr>convolvers := [c1]\<rparr>)"
    by (simp add: Convolve_start_def st assms)
  have B: "unat (blocksize c0) = 4096" by (simp add: c0)
  have rB: "real (unat (blocksize c0)) = 4096" unfolding B by simp
  have rD: "real (unat (delaylen l)) = 8192" unfolding assms(6) by simp
  have rP: "real (unat (delaypos l)) = 4096" unfolding assms(8) by simp
  have rM: "real (unat (maxdelay l)) = 4090" unfolding assms(7) by simp
  have f: "frame_ok example_extern (blocksize c0) l"
    using assms(5) by (simp add: c0)
  have p1: "round_double (real (unat (delaypos l)) + real (unat (delaylen l)) - delay1 l)
            = 12287"
    unfolding rD rP assms(9) using round_double_nat [of 12287] by simp
  have p2: "round_double (real (unat (delaypos l)) + real (unat (blocksize c0))
              + real (unat (delaylen l)) - min (outputdelay c0) (real (unat (maxdelay l))))
            = 16383"
    unfolding rD rP rB rM c0 using round_double_nat [of 16383] by simp
  have h2: "list_all (\<lambda>n. - 1 < interpolate (blocksize c0)
                (round_double (real (unat (delaypos l)) + real (unat (delaylen l)) - delay1 l))
                (round_double (real (unat (delaypos l)) + real (unat (blocksize c0))
                   + real (unat (delaylen l))
                   - min (outputdelay c0) (real (unat (maxdelay l))))) n
            \<and> interpolate (blocksize c0)
                (round_double (real (unat (delaypos l)) + real (unat (delaylen l)) - delay1 l))
                (round_double (real (unat (delaypos l)) + real (unat (blocksize c0))
                   + real (unat (delaylen l))
                   - min (outputdelay c0) (real (unat (maxdelay l))))) n < 2 ^ 32)
           [0..<unat (blocksize c0)]"
    unfolding p1 p2 by (rule interpolate_cast [where M = 16383]) simp_all
  from Process_block_Inr [OF f h2] obtain c' l' where
    pb: "Process_block example_extern c0 l = Inr (c', l')"
    and lo: "length (output_buf c') = unat (blocksize c0)"
    and out: "\<not> hqproc c0 \<longrightarrow> (\<forall>n<unat (blocksize c0). output_buf c' ! n =
            round_float (round_double
              (interpolate (blocksize c0) (level1 l) (outputlevel c0) n
               * delaymem l' ! (nat \<lfloor>interpolate (blocksize c0)
                   (round_double (real (unat (delaypos l)) + real (unat (delaylen l))
                      - delay1 l))
                   (round_double ((real (unat (delaypos l)) + real (unat (blocksize c0)))
                      + real (unat (delaylen l))
                      - min (outputdelay c0)
                          (real (unat (delaylen l)) - real (unat (blocksize c0)) - 1
                             - real (unat (FractionalSampleAdditionalDelayRequired
                                  example_extern))))) n\<rfloor>
                 mod unat (delaylen l)))))"
    and mem: "\<forall>k<unat (delaylen l). delaymem l' ! k =
            (if unat (delaypos l) \<le> k \<and> k < unat (delaypos l) + unat (blocksize c0)
             then (if zeroblocks c0 < partitions c0
                   then snd (Convolver_Convolve example_extern c0) (k - unat (delaypos l)) else 0)
             else delaymem l ! k)"
    unfolding Let_def by blast
  note fl = Process_block_fields [OF pb]
  have m4095: "delaymem l' ! 4095 = 1"
    using mem [rule_format, of 4095] by (simp add: assms(6,8,11))
  have r1: "round_float 1 = 1" using round_float_dyadic [of 1 0] by simp
  have r12287: "round_double 12287 = 12287" using round_double_nat [of 12287] by simp
  have "output_buf c' ! 0 =
            round_float (round_double
              (interpolate (blocksize c0) (level1 l) (outputlevel c0) 0
               * delaymem l' ! (nat \<lfloor>interpolate (blocksize c0)
                   (round_double (real (unat (delaypos l)) + real (unat (delaylen l))
                      - delay1 l))
                   (round_double ((real (unat (delaypos l)) + real (unat (blocksize c0)))
                      + real (unat (delaylen l))
                      - min (outputdelay c0)
                          (real (unat (delaylen l)) - real (unat (blocksize c0)) - 1
                             - real (unat (FractionalSampleAdditionalDelayRequired
                                  example_extern))))) 0\<rfloor>
                 mod unat (delaylen l))))"
    using out c0(8) B by simp
  also have "\<dots> = round_float (round_double (1 * delaymem l' ! (nat \<lfloor>(12287 :: real)\<rfloor> mod 8192)))"
    unfolding interpolate_0 p1 by (simp add: assms(6,10) c0 r12287)
  also have "nat \<lfloor>(12287 :: real)\<rfloor> mod 8192 = 4095" by simp
  finally have o0: "output_buf c' ! 0 = 1" using m4095 r1 by simp
  define c2 where "c2 = c'\<lparr>thread := Some l', donesignal := True\<rparr>"
  have ps: "Process_step example_extern c1 = Inr c2"
    unfolding c2_def
    by (rule Process_step_Inr [OF c1]) (simp add: pb [unfolded c0_def])
  have c2: "zeroblocks c2 < maxzeroblocks c2" "donesignal c2"
    "length (output_buf c2) = unat (blocksize c2)" "length silent_block = unat (blocksize c2)"
    using fl lo by (simp_all add: c2_def c0 silent_block_facts)
  from EndConvolution_block [OF c2, of 1] obtain b where
    e: "EndConvolution c2 silent_block 0 1 1 = Inr (c2\<lparr>donesignal := False\<rparr>, b)" ..
  have "Convolve example_extern m silent_block silent_block 1 1
        = Inr (m\<lparr>convolvers := [c1]\<rparr>
                 \<lparr>convolvers := [c2\<lparr>donesignal := False\<rparr>], updateparameters := False\<rparr>, b)"
    by (rule Convolve_one_worker [OF _ cs _ ps]) (simp_all add: assms e)
  moreover have "blocksize (c2\<lparr>donesignal := False\<rparr>) = 4096"
    "zeroblocks (c2\<lparr>donesignal := False\<rparr>) = 1"
    "maxzeroblocks (c2\<lparr>donesignal := False\<rparr>) = 2"
    "\<not> startsignal (c2\<lparr>donesignal := False\<rparr>)"
    "output_buf (c2\<lparr>donesignal := False\<rparr>) ! 0 = 1"
    using fl o0 by (simp_all add: c2_def c0)
  ultimately show ?thesis by (simp add: assms)
qed

lemma big_tick_C:
  assumes "convolvers m = [c]" and "\<not> updateparameters m" and "audioscale m = 1"
    and "blocksize c = 4096" and "zeroblocks c = 1" and "maxzeroblocks c = 2"
    and "\<not> startsignal c" and "output_buf c ! 0 = 1"
  shows "\<exists>m' c'. Convolve example_extern m silent_block silent_block 1 1
                   = Inr (m', silent_block)
     \<and> convolvers m' = [c'] \<and> audioscale m' = 1 \<and> output_buf c' ! 0 = 1"
proof -
  define c1 where "c1 = c\<lparr>input_buf := silent_block, zeroblocks := 2\<rparr>"
  have "length silent_block = unat (blocksize c)"
    by (simp add: silent_block_facts assms)
  from StartConvolution_block [OF this]
  have st: "StartConvolution c silent_block 0 1 = Inr c1"
    by (simp add: silent_block_facts c1_def assms)
  have cs: "Convolve_start 1 1 silent_block 0 m = Inr (m\<lparr>convolvers := [c1]\<rparr>)"
    by (simp add: Convolve_start_def st assms)
  have ps: "Process_step example_extern c1 = Inr c1"
    by (rule Process_step_idle) (simp add: c1_def assms)
  have e: "EndConvolution c1 silent_block 0 1 1 = Inr (c1, silent_block)"
    by (simp add: EndConvolution_def c1_def assms)
  have "Convolve example_extern m silent_block silent_block 1 1
        = Inr (m\<lparr>convolvers := [c1]\<rparr>\<lparr>convolvers := [c1], updateparameters := False\<rparr>,
               silent_block)"
    by (rule Convolve_one_worker [OF _ cs _ ps]) (simp_all add: assms e)
  moreover have "output_buf c1 ! 0 = 1" by (simp add: c1_def assms)
  ultimately show ?thesis by (simp add: assms)
qed


end
